theory Spec2Isabelle
  imports Complex_Main "HOL-Library.Multiset" "HOL-Library.Product_Lexorder"
    "HOL-Library.List_Lexorder" "HOL-Library.Char_ord"
begin
section \<open>Records, frames and the libraries the strategies call\<close>

text \<open>
  The strategies of \<^verbatim>\<open>labs/day04_pubsub/dedup_strategies.py\<close> and
  \<^verbatim>\<open>labs/day05_configdriven/src/strategies/dedup.py\<close> work on polars frames
  built from the JSON lines the subscriber wrote. A cell holds a string, an integer, a
  float (only ever compared, so a real number stands for it), a date (the day number
  polars stores) or null. A row maps column names to cells; a name the row does not
  hold reads as null, which is what \<^verbatim>\<open>pl.DataFrame(records)\<close> makes of a key
  that one record lacks. The frame keeps its column names apart from its rows: a column
  that is absent from the frame is an error for polars, whatever the rows hold.
\<close>

datatype val = VStr string | VInt int | VFlt real | VDate int | VNull

type_synonym row = "string \<rightharpoonup> val"

record dataframe =
  columns :: "string list"
  rows :: "row list"

definition cell :: "row \<Rightarrow> string \<Rightarrow> val" where
  "cell r c = (case r c of None \<Rightarrow> VNull | Some v \<Rightarrow> v)"

datatype error =
  ColumnNotFoundError string
  | InvalidOperationError string
  | SchemaMismatchError
  | ValueError
  | IndexError

text \<open>A metrics dict, in the order the source writes its keys.\<close>

type_synonym metrics = "(string \<times> val) list"

text \<open>
  What the code takes from outside the repository and only calls: the digest
  \<^verbatim>\<open>hashlib.sha256(s.encode()).hexdigest()\<close>, Python's formatting of a float or
  a date inside an f-string, polars' cast of a float or a date to \<^verbatim>\<open>Utf8\<close>,
  polars' cast of a string or a date to \<^verbatim>\<open>Int64\<close> (\<open>None\<close> when polars
  raises), and \<^verbatim>\<open>json.dumps(d, sort_keys=True)\<close> of a dict given by its items.
  The theorems hold for every such collection of functions.
\<close>

record externals =
  sha256_hex :: "string \<Rightarrow> string"
  py_repr :: "val \<Rightarrow> string"
  utf8_cast :: "val \<Rightarrow> string"
  int64_cast :: "val \<Rightarrow> int option"
  json_dumps :: "(string \<times> val) list \<Rightarrow> string"

text \<open>Python's \<^verbatim>\<open>str\<close> of an integer: decimal digits, a minus sign first.\<close>

fun str_nat :: "nat \<Rightarrow> string" where
  "str_nat n =
     (if n < 10 then [''0123456789'' ! n]
      else str_nat (n div 10) @ [''0123456789'' ! (n mod 10)])"

declare str_nat.simps [simp del]

definition str_int :: "int \<Rightarrow> string" where
  "str_int i = (if i < 0 then CHR ''-'' # str_nat (nat (- i)) else str_nat (nat i))"

text \<open>A value inside an f-string: \<^verbatim>\<open>f"{x}"\<close>.\<close>

definition py_format :: "externals \<Rightarrow> val \<Rightarrow> string" where
  "py_format E v =
     (case v of VStr s \<Rightarrow> s | VInt i \<Rightarrow> str_int i | VNull \<Rightarrow> ''None'' | _ \<Rightarrow> py_repr E v)"

text \<open>\<^verbatim>\<open>expr.cast(pl.Utf8)\<close> of a cell that is not null.\<close>

definition pl_utf8 :: "externals \<Rightarrow> val \<Rightarrow> string" where
  "pl_utf8 E v = (case v of VStr s \<Rightarrow> s | VInt i \<Rightarrow> str_int i | _ \<Rightarrow> utf8_cast E v)"

subsection \<open>The polars operations the strategies use\<close>

text \<open>
  \<^verbatim>\<open>with_columns\<close> evaluates its expressions on the frame it is given; a column
  with the new name is replaced where it stands, a new name is added at the end. Rows
  keep their order.
\<close>

definition missing_columns :: "string list \<Rightarrow> dataframe \<Rightarrow> string list" where
  "missing_columns cs df = filter (\<lambda>c. c \<notin> set (columns df)) cs"

definition add_column_name :: "string \<Rightarrow> string list \<Rightarrow> string list" where
  "add_column_name c cs = (if c \<in> set cs then cs else cs @ [c])"

definition pl_with_column :: "string \<Rightarrow> (row \<Rightarrow> val) \<Rightarrow> dataframe \<Rightarrow> dataframe" where
  "pl_with_column c f df =
     \<lparr>columns = add_column_name c (columns df),
      rows = map (\<lambda>r. r(c \<mapsto> f r)) (rows df)\<rparr>"

text \<open>
  \<^verbatim>\<open>unique(subset=[c], keep="first")\<close> keeps, of the rows that agree on column
  \<open>c\<close>, the one that stands first in the frame (a single pass with the set of the
  values seen so far); \<^verbatim>\<open>keep="last"\<close> keeps the one that stands last.
\<close>

primrec unique_first :: "('a \<Rightarrow> 'k) \<Rightarrow> 'k set \<Rightarrow> 'a list \<Rightarrow> 'a list" where
  "unique_first key seen [] = []"
| "unique_first key seen (x # xs) =
     (if key x \<in> seen then unique_first key seen xs
      else x # unique_first key (insert (key x) seen) xs)"

primrec unique_last :: "('a \<Rightarrow> 'k) \<Rightarrow> 'a list \<Rightarrow> 'a list" where
  "unique_last key [] = []"
| "unique_last key (x # xs) =
     (if key x \<in> key ` set xs then unique_last key xs else x # unique_last key xs)"

datatype keep = KeepFirst | KeepLast

text \<open>
  Every call of \<^verbatim>\<open>unique\<close> in the source leaves \<^verbatim>\<open>maintain_order\<close> at its
  default \<^verbatim>\<open>False\<close>: polars then returns the surviving rows in an order of its own
  choosing. The argument \<open>ord\<close> is that choice for one call; \<open>row_order ord\<close> says all
  polars promises of it, that it rearranges the rows it is given.
\<close>

definition row_order :: "(row list \<Rightarrow> row list) \<Rightarrow> bool" where
  "row_order ord \<longleftrightarrow> (\<forall>xs. mset (ord xs) = mset xs)"

definition pl_unique ::
  "(row list \<Rightarrow> row list) \<Rightarrow> string \<Rightarrow> keep \<Rightarrow> dataframe \<Rightarrow> error + dataframe" where
  "pl_unique ord c k df =
     (if c \<notin> set (columns df) then Inl (ColumnNotFoundError c)
      else Inr (df\<lparr>rows := ord (case k of
                  KeepFirst \<Rightarrow> unique_first (\<lambda>r. cell r c) {} (rows df)
                | KeepLast \<Rightarrow> unique_last (\<lambda>r. cell r c) (rows df))\<rparr>))"

text \<open>
  \<^verbatim>\<open>df.sort(c)\<close> sorts ascending with nulls first. The source leaves
  \<^verbatim>\<open>maintain_order\<close> at \<^verbatim>\<open>False\<close> here too, so the sort need not be stable:
  the argument \<open>srt\<close> is the sort polars performs in one call, and \<open>sorts_by srt\<close> says
  what polars promises of it, a rearrangement of the rows that is ascending in the
  column. \<open>sort_rank\<close> orders the cells: null, then numbers by value, then strings.
\<close>

definition sort_rank :: "val \<Rightarrow> nat \<times> real \<times> string" where
  "sort_rank v =
     (case v of VNull \<Rightarrow> (0, 0, []) | VInt i \<Rightarrow> (1, real_of_int i, [])
      | VFlt x \<Rightarrow> (1, x, []) | VDate d \<Rightarrow> (1, real_of_int d, []) | VStr s \<Rightarrow> (2, 0, s))"

definition sorts_by :: "(string \<Rightarrow> row list \<Rightarrow> row list) \<Rightarrow> bool" where
  "sorts_by srt \<longleftrightarrow>
     (\<forall>c xs. mset (srt c xs) = mset xs \<and> sorted (map (\<lambda>r. sort_rank (cell r c)) (srt c xs)))"

definition pl_sort ::
  "(string \<Rightarrow> row list \<Rightarrow> row list) \<Rightarrow> string \<Rightarrow> dataframe \<Rightarrow> error + dataframe" where
  "pl_sort srt c df =
     (if c \<notin> set (columns df) then Inl (ColumnNotFoundError c)
      else Inr (df\<lparr>rows := srt c (rows df)\<rparr>))"

text \<open>
  \<^verbatim>\<open>pl.from_epoch(pl.col(c), time_unit="s").dt.date()\<close>: the cell is cast to a whole
  number of seconds (a float is truncated towards zero) and the day it falls on is kept.
\<close>

definition epoch_seconds :: "externals \<Rightarrow> val \<Rightarrow> int option option" where
  "epoch_seconds E v =
     (case v of VNull \<Rightarrow> Some None | VInt i \<Rightarrow> Some (Some i)
      | VFlt x \<Rightarrow> Some (Some (if 0 \<le> x then \<lfloor>x\<rfloor> else \<lceil>x\<rceil>))
      | _ \<Rightarrow> (case int64_cast E v of None \<Rightarrow> None | Some i \<Rightarrow> Some (Some i)))"

definition epoch_date :: "externals \<Rightarrow> val \<Rightarrow> val" where
  "epoch_date E v =
     (case epoch_seconds E v of Some (Some s) \<Rightarrow> VDate (s div 86400) | _ \<Rightarrow> VNull)"

section \<open>The strategies of day04: dedup_strategies.py\<close>

definition compute_composite_hash :: "externals \<Rightarrow> row \<Rightarrow> string" where
  "compute_composite_hash E row =
     (let key = py_format E (cell row ''message_id'')
              @ py_format E (cell row ''sequence_id'')
              @ py_format E (cell row ''partition_id'')
      in sha256_hex E key)"

text \<open>
  \<open>cols\<close> are the columns of the struct the row was made from; \<open>json_dumps\<close> stands
  for \<^verbatim>\<open>json.dumps(row, sort_keys=True)\<close> of the dict with these items.
\<close>

definition compute_payload_hash :: "externals \<Rightarrow> string list \<Rightarrow> row \<Rightarrow> string" where
  "compute_payload_hash E cols row =
     (let payload = json_dumps E (map (\<lambda>c. (c, cell row c)) cols)
      in sha256_hex E payload)"

text \<open>
  The \<^verbatim>\<open>with_columns\<close> call that opens \<^verbatim>\<open>eager_dedup\<close>,
  \<^verbatim>\<open>merge_dedup_polars\<close> and \<^verbatim>\<open>merge_dedup_delta\<close>: the struct of the three
  key columns, mapped through \<^verbatim>\<open>compute_composite_hash\<close>, as column
  \<^verbatim>\<open>composite_hash\<close>. polars raises when one of the three columns is not in the
  frame.
\<close>

definition with_composite_hash :: "externals \<Rightarrow> dataframe \<Rightarrow> error + dataframe" where
  "with_composite_hash E df =
     (case missing_columns [''message_id'', ''sequence_id'', ''partition_id''] df of
        c # _ \<Rightarrow> Inl (ColumnNotFoundError c)
      | [] \<Rightarrow> Inr (pl_with_column ''composite_hash''
                    (\<lambda>r. VStr (compute_composite_hash E r)) df))"

text \<open>
  The metrics leave out \<^verbatim>\<open>dedup_rate\<close>, a percentage printed with two decimals.
\<close>

definition eager_dedup ::
  "externals \<Rightarrow> (row list \<Rightarrow> row list) \<Rightarrow> dataframe \<Rightarrow> error + (dataframe \<times> metrics)" where
  "eager_dedup E ord df =
     (case with_composite_hash E df of
        Inl e \<Rightarrow> Inl e
      | Inr df1 \<Rightarrow>
          let initial_count = length (rows df1) in
          (case pl_unique ord ''composite_hash'' KeepFirst df1 of
             Inl e \<Rightarrow> Inl e
           | Inr deduped \<Rightarrow>
               let final_count = length (rows deduped);
                   dropped_count = int initial_count - int final_count
               in Inr (deduped,
                    [(''strategy'', VStr ''eager_dedup''),
                     (''initial_records'', VInt (int initial_count)),
                     (''final_records'', VInt (int final_count)),
                     (''dropped_duplicates'', VInt dropped_count)])))"

text \<open>
  \<^verbatim>\<open>add_hashes\<close> adds three columns in one \<^verbatim>\<open>with_columns\<close> call, each
  computed from the frame as it came in: the composite hash, the payload hash over
  \<^verbatim>\<open>pl.all()\<close> (every column of the input), and the partition date.
\<close>

definition add_hashes :: "externals \<Rightarrow> dataframe \<Rightarrow> error + (dataframe \<times> metrics)" where
  "add_hashes E df =
     (let initial_count = length (rows df) in
      case missing_columns
             [''message_id'', ''sequence_id'', ''partition_id'', ''created_at''] df of
        c # _ \<Rightarrow> Inl (ColumnNotFoundError c)
      | [] \<Rightarrow>
          if \<exists>r \<in> set (rows df). epoch_seconds E (cell r ''created_at'') = None
          then Inl (InvalidOperationError ''created_at'')
          else
            let df_with_hashes =
                  \<lparr>columns = add_column_name ''partition_date''
                       (add_column_name ''payload_hash''
                         (add_column_name ''composite_hash'' (columns df))),
                   rows = map (\<lambda>r. r(''composite_hash'' \<mapsto> VStr (compute_composite_hash E r),
                                      ''payload_hash'' \<mapsto>
                                         VStr (compute_payload_hash E (columns df) r),
                                      ''partition_date'' \<mapsto>
                                         epoch_date E (cell r ''created_at'')))
                            (rows df)\<rparr>;
                unique_composite =
                  length (remdups (map (\<lambda>r. cell r ''composite_hash'') (rows df_with_hashes)));
                unique_payload =
                  length (remdups (map (\<lambda>r. cell r ''payload_hash'') (rows df_with_hashes)))
            in Inr (df_with_hashes,
                 [(''strategy'', VStr ''add_hashes''),
                  (''total_records'', VInt (int initial_count)),
                  (''unique_composite_keys'', VInt (int unique_composite)),
                  (''unique_payloads'', VInt (int unique_payload)),
                  (''potential_duplicates'', VInt (int initial_count - int unique_composite)),
                  (''note'', VStr ''No deduplication applied - immutable bronze pattern with daily partitioning'')]))"

text \<open>\<^verbatim>\<open>table_path\<close> is a parameter the source never reads; the model leaves it out.\<close>

definition merge_dedup_polars ::
  "externals \<Rightarrow> (string \<Rightarrow> row list \<Rightarrow> row list) \<Rightarrow> (row list \<Rightarrow> row list) \<Rightarrow> dataframe
     \<Rightarrow> error + (dataframe \<times> metrics)" where
  "merge_dedup_polars E srt ord df =
     (let initial_count = length (rows df) in
      case with_composite_hash E df of
        Inl e \<Rightarrow> Inl e
      | Inr df1 \<Rightarrow>
          (case pl_sort srt ''created_at'' df1 of
             Inl e \<Rightarrow> Inl e
           | Inr sorted_df \<Rightarrow>
               (case pl_unique ord ''message_id'' KeepLast sorted_df of
                  Inl e \<Rightarrow> Inl e
                | Inr deduped \<Rightarrow>
                    let final_count = length (rows deduped) in
                    Inr (deduped,
                      [(''strategy'', VStr ''merge_dedup_polars''),
                       (''initial_records'', VInt (int initial_count)),
                       (''final_records'', VInt (int final_count)),
                       (''merged_duplicates'', VInt (int initial_count - int final_count)),
                       (''dedup_method'', VStr ''last-write-wins by message_id'')]))))"


section \<open>The strategies of day05: strategies/dedup.py\<close>

text \<open>
  The day05 strategies write their result to a Delta table of their own. The table is
  absent (\<open>None\<close>) or holds a frame. \<^verbatim>\<open>write_deltalake\<close> creates the table,
  replaces its rows (\<^verbatim>\<open>mode="overwrite"\<close>) or adds to them
  (\<^verbatim>\<open>mode="append"\<close>), and refuses data whose columns are not the table's. A
  function that raises leaves the table as it was.
\<close>

type_synonym delta_table = "dataframe option"

datatype write_mode = Overwrite | Append

definition write_deltalake ::
  "delta_table \<Rightarrow> dataframe \<Rightarrow> write_mode \<Rightarrow> error + delta_table" where
  "write_deltalake table data mode =
     (case table of
        None \<Rightarrow> Inr (Some data)
      | Some old \<Rightarrow>
          if set (columns old) \<noteq> set (columns data) then Inl SchemaMismatchError
          else (case mode of
                  Overwrite \<Rightarrow> Inr (Some data)
                | Append \<Rightarrow> Inr (Some (old\<lparr>rows := rows old @ rows data\<rparr>))))"

text \<open>
  The two hash functions of day05 have the names of day04's and other arguments: the
  first takes the key string, the second the row as a dict.
\<close>

definition compute_composite_hash_d05 :: "externals \<Rightarrow> string \<Rightarrow> string" where
  "compute_composite_hash_d05 E key_string = sha256_hex E key_string"

definition compute_payload_hash_d05 :: "externals \<Rightarrow> (string \<times> val) list \<Rightarrow> string" where
  "compute_payload_hash_d05 E row_dict =
     (let payload = json_dumps E row_dict in sha256_hex E payload)"

text \<open>
  \<^verbatim>\<open>pl.concat_str\<close> of the message id and the two numbers cast to
  \<^verbatim>\<open>Utf8\<close> is null when one of the three cells is null, and
  \<^verbatim>\<open>map_elements\<close> passes a null on.
\<close>

definition composite_hash_cell :: "externals \<Rightarrow> row \<Rightarrow> val" where
  "composite_hash_cell E r =
     (let m = cell r ''message_id''; s = cell r ''sequence_id''; p = cell r ''partition_id''
      in if m = VNull \<or> s = VNull \<or> p = VNull then VNull
         else VStr (compute_composite_hash_d05 E (pl_utf8 E m @ pl_utf8 E s @ pl_utf8 E p)))"

definition add_composite_hash_column :: "externals \<Rightarrow> dataframe \<Rightarrow> error + dataframe" where
  "add_composite_hash_column E df =
     (case missing_columns [''message_id'', ''sequence_id'', ''partition_id''] df of
        c # _ \<Rightarrow> Inl (ColumnNotFoundError c)
      | [] \<Rightarrow> Inr (pl_with_column ''composite_hash'' (composite_hash_cell E) df))"

text \<open>
  Each \<^verbatim>\<open>process\<close> takes the table as it stands and returns the table as it
  leaves it, with the error raised or the frame and the metrics returned. The metrics
  leave out \<^verbatim>\<open>dedup_rate_pct\<close> (a rounded float); the log lines and the path of
  the table are left out as well.
\<close>

definition EagerDedupStrategy_process ::
  "externals \<Rightarrow> (row list \<Rightarrow> row list) \<Rightarrow> delta_table \<Rightarrow> dataframe
     \<Rightarrow> delta_table \<times> (error + (dataframe \<times> metrics))" where
  "EagerDedupStrategy_process E ord table df =
     (let initial_count = length (rows df) in
      case add_composite_hash_column E df of
        Inl e \<Rightarrow> (table, Inl e)
      | Inr df1 \<Rightarrow>
          (case pl_unique ord ''composite_hash'' KeepFirst df1 of
             Inl e \<Rightarrow> (table, Inl e)
           | Inr deduped \<Rightarrow>
               let final_count = length (rows deduped) in
               (case write_deltalake table deduped Overwrite of
                  Inl e \<Rightarrow> (table, Inl e)
                | Inr table' \<Rightarrow>
                    (table', Inr (deduped,
                       [(''strategy'', VStr ''eager_dedup''),
                        (''initial_records'', VInt (int initial_count)),
                        (''final_records'', VInt (int final_count)),
                        (''dropped_duplicates'',
                           VInt (int initial_count - int final_count))])))))"

text \<open>
  The payload hash of day05 is taken over \<^verbatim>\<open>original_cols\<close>, the columns of the
  input, read from the frame that already holds the composite hash.
\<close>

definition BronzeAppendStrategy_process ::
  "externals \<Rightarrow> delta_table \<Rightarrow> dataframe \<Rightarrow> delta_table \<times> (error + (dataframe \<times> metrics))" where
  "BronzeAppendStrategy_process E table df =
     (let initial_count = length (rows df);
          original_cols = columns df in
      case add_composite_hash_column E df of
        Inl e \<Rightarrow> (table, Inl e)
      | Inr df1 \<Rightarrow>
          if ''created_at'' \<notin> set (columns df1)
          then (table, Inl (ColumnNotFoundError ''created_at''))
          else if \<exists>r \<in> set (rows df1). epoch_seconds E (cell r ''created_at'') = None
          then (table, Inl (InvalidOperationError ''created_at''))
          else
            let df_with_hashes =
                  \<lparr>columns = add_column_name ''partition_date''
                       (add_column_name ''payload_hash'' (columns df1)),
                   rows = map (\<lambda>r. r(''payload_hash'' \<mapsto>
                                        VStr (compute_payload_hash_d05 E
                                               (map (\<lambda>c. (c, cell r c)) original_cols)),
                                      ''partition_date'' \<mapsto>
                                        epoch_date E (cell r ''created_at'')))
                            (rows df1)\<rparr>;
                unique_composite =
                  length (remdups (map (\<lambda>r. cell r ''composite_hash'') (rows df_with_hashes)));
                unique_payload =
                  length (remdups (map (\<lambda>r. cell r ''payload_hash'') (rows df_with_hashes)))
            in (case write_deltalake table df_with_hashes Append of
                  Inl e \<Rightarrow> (table, Inl e)
                | Inr table' \<Rightarrow>
                    (table', Inr (df_with_hashes,
                       [(''strategy'', VStr ''bronze_append''),
                        (''total_records'', VInt (int initial_count)),
                        (''unique_composite_keys'', VInt (int unique_composite)),
                        (''unique_payloads'', VInt (int unique_payload)),
                        (''potential_duplicates'',
                           VInt (int initial_count - int unique_composite)),
                        (''note'', VStr ''No deduplication - immutable bronze pattern'')]))))"

text \<open>
  The configuration of the merge strategy, with the defaults of
  \<^verbatim>\<open>config.get\<close>: \<^verbatim>\<open>dedup_key\<close> (\<^verbatim>\<open>message_id\<close>),
  \<^verbatim>\<open>sort_by\<close> (\<^verbatim>\<open>created_at\<close>) and \<^verbatim>\<open>keep\<close>
  (\<^verbatim>\<open>last\<close>); the loader admits \<^verbatim>\<open>first\<close> and \<^verbatim>\<open>last\<close> only.
\<close>

record merge_config =
  dedup_key :: "string option"
  sort_by :: "string option"
  keep_which :: "keep option"

definition config_get :: "'a option \<Rightarrow> 'a \<Rightarrow> 'a" where
  "config_get v d = (case v of None \<Rightarrow> d | Some x \<Rightarrow> x)"

definition PolarsMergeStrategy_process ::
  "externals \<Rightarrow> (string \<Rightarrow> row list \<Rightarrow> row list) \<Rightarrow> (row list \<Rightarrow> row list) \<Rightarrow> merge_config
     \<Rightarrow> delta_table \<Rightarrow> dataframe \<Rightarrow> delta_table \<times> (error + (dataframe \<times> metrics))" where
  "PolarsMergeStrategy_process E srt ord config table df =
     (let initial_count = length (rows df) in
      case add_composite_hash_column E df of
        Inl e \<Rightarrow> (table, Inl e)
      | Inr df1 \<Rightarrow>
          let dedup_key = config_get (dedup_key config) ''message_id'';
              sort_by = config_get (sort_by config) ''created_at'';
              keep = config_get (keep_which config) KeepLast in
          (case pl_sort srt sort_by df1 of
             Inl e \<Rightarrow> (table, Inl e)
           | Inr sorted_df \<Rightarrow>
               (case pl_unique ord dedup_key keep sorted_df of
                  Inl e \<Rightarrow> (table, Inl e)
                | Inr deduped \<Rightarrow>
                    let final_count = length (rows deduped) in
                    (case write_deltalake table deduped Overwrite of
                       Inl e \<Rightarrow> (table, Inl e)
                     | Inr table' \<Rightarrow>
                         (table', Inr (deduped,
                            [(''strategy'', VStr ''polars_merge''),
                             (''initial_records'', VInt (int initial_count)),
                             (''final_records'', VInt (int final_count)),
                             (''merged_duplicates'',
                                VInt (int initial_count - int final_count)),
                             (''dedup_method'',
                                VStr (''last-write-wins by '' @ dedup_key))]))))))"

section \<open>Sample records\<close>

text \<open>
  A record as the subscriber writes it, and a collection of outside functions to run the
  definitions on: the digest is the identity there, so that two key strings have one
  digest only when they are the same string.
\<close>

definition record_columns :: "string list" where
  "record_columns =
     [''event'', ''message_id'', ''sequence_id'', ''partition_id'', ''created_at'',
      ''arrival_ts'', ''arrival_index'', ''value'', ''zipcode'']"

definition received_record :: "string \<Rightarrow> int \<Rightarrow> int \<Rightarrow> real \<Rightarrow> int \<Rightarrow> int \<Rightarrow> row" where
  "received_record mid seq part created idx v =
     [''event'' \<mapsto> VStr ''message_received'', ''message_id'' \<mapsto> VStr mid,
      ''sequence_id'' \<mapsto> VInt seq, ''partition_id'' \<mapsto> VInt part,
      ''created_at'' \<mapsto> VFlt created, ''arrival_ts'' \<mapsto> VFlt created,
      ''arrival_index'' \<mapsto> VInt idx, ''value'' \<mapsto> VInt v, ''zipcode'' \<mapsto> VStr ''10001'']"

definition plain_externals :: externals where
  "plain_externals =
     \<lparr>sha256_hex = (\<lambda>s. s), py_repr = (\<lambda>v. ''?''), utf8_cast = (\<lambda>v. ''?''),
      int64_cast = (\<lambda>v. None), json_dumps = (\<lambda>items. concat (map fst items))\<rparr>"

text \<open>The frame of two records whose keys differ and whose key strings agree.\<close>

definition colliding_batch :: dataframe where
  "colliding_batch =
     \<lparr>columns = record_columns,
      rows = [received_record ''a'' 12 3 1 1 500, received_record ''a1'' 2 3 2 2 700]\<rparr>"

section \<open>Notions the statements use\<close>

text \<open>
  The composite key of the data model, the three columns every strategy hashes, and a
  record with its composite hash attached as day04 and as day05 compute it.
\<close>

definition composite_key :: "row \<Rightarrow> val \<times> val \<times> val" where
  "composite_key r = (cell r ''message_id'', cell r ''sequence_id'', cell r ''partition_id'')"

definition key_columns :: "string list" where
  "key_columns = [''message_id'', ''sequence_id'', ''partition_id'']"

definition hashed :: "externals \<Rightarrow> row \<Rightarrow> row" where
  "hashed E r = r(''composite_hash'' \<mapsto> VStr (compute_composite_hash E r))"

definition hashed_d05 :: "externals \<Rightarrow> row \<Rightarrow> row" where
  "hashed_d05 E r = r(''composite_hash'' \<mapsto> composite_hash_cell E r)"

text \<open>
  Two sorts that polars' contract admits: the stable one, and one that leaves rows with
  equal sort cells in the reverse of their input order.
\<close>

definition stable_sort :: "string \<Rightarrow> row list \<Rightarrow> row list" where
  "stable_sort c xs = sort_key (\<lambda>r. sort_rank (cell r c)) xs"

definition ties_reversed_sort :: "string \<Rightarrow> row list \<Rightarrow> row list" where
  "ties_reversed_sort c xs = sort_key (\<lambda>r. sort_rank (cell r c)) (rev xs)"

text \<open>
  Two records of one message id and one \<^verbatim>\<open>created_at\<close>, told apart by their
  arrival index; and two records of different messages.
\<close>

definition tied_batch :: dataframe where
  "tied_batch =
     \<lparr>columns = record_columns,
      rows = [received_record ''abc'' 1 0 1 1 500, received_record ''abc'' 1 0 1 2 700]\<rparr>"

definition two_record_batch :: dataframe where
  "two_record_batch =
     \<lparr>columns = record_columns,
      rows = [received_record ''abc'' 1 0 1 1 500, received_record ''xyz'' 2 0 2 2 700]\<rparr>"

text \<open>The merge strategy of day05 as it is configured when the configuration names nothing.\<close>

definition default_merge_config :: merge_config where
  "default_merge_config = \<lparr>dedup_key = None, sort_by = None, keep_which = None\<rparr>"

text \<open>
  A record as Bronze returns it, with the three columns day04 (and day05) adds, and the
  columns of the frame Bronze returns.
\<close>

definition bronze_row :: "externals \<Rightarrow> string list \<Rightarrow> row \<Rightarrow> row" where
  "bronze_row E cols r =
     r(''composite_hash'' \<mapsto> VStr (compute_composite_hash E r),
       ''payload_hash'' \<mapsto> VStr (compute_payload_hash E cols r),
       ''partition_date'' \<mapsto> epoch_date E (cell r ''created_at''))"

definition bronze_row_d05 :: "externals \<Rightarrow> string list \<Rightarrow> row \<Rightarrow> row" where
  "bronze_row_d05 E cols r =
     (hashed_d05 E r)(''payload_hash'' \<mapsto>
         VStr (compute_payload_hash_d05 E (map (\<lambda>c. (c, cell (hashed_d05 E r) c)) cols)),
       ''partition_date'' \<mapsto> epoch_date E (cell r ''created_at''))"

definition bronze_columns :: "string list \<Rightarrow> string list" where
  "bronze_columns cols =
     add_column_name ''partition_date''
       (add_column_name ''payload_hash'' (add_column_name ''composite_hash'' cols))"

text \<open>A batch whose records carry no sequence id.\<close>

definition batch_without_sequence_id :: dataframe where
  "batch_without_sequence_id =
     \<lparr>columns = [''message_id'', ''partition_id'', ''created_at''],
      rows = [[''message_id'' \<mapsto> VStr ''abc'', ''partition_id'' \<mapsto> VInt 0,
               ''created_at'' \<mapsto> VFlt 1]]\<rparr>"

section \<open>The simulation of day04: day04_pubsub_sim.py\<close>

record message =
  message_id :: string
  sequence_id :: int
  partition_id :: int
  created_at :: real
  msg_value :: int
  zipcode :: string

text \<open>The arguments of the command line that the simulation reads.\<close>

record config =
  total_messages :: int
  partitions :: int
  buffer :: int
  base_delay :: real
  jitter :: real
  dup_prob :: real
  slow_prob :: real

subsection \<open>The random module\<close>

text \<open>
  The generator of Python's \<^verbatim>\<open>random\<close> module is outside the repository. Its state
  is a value of some type \<open>'g\<close> and it is read through two functions, as in
  \<^verbatim>\<open>random.py\<close>: \<^verbatim>\<open>random()\<close>, a float in [0, 1), and
  \<^verbatim>\<open>_randbelow(n)\<close>, an integer in [0, n); each returns the next state.
  \<^verbatim>\<open>random.seed(s)\<close> fixes the state the run starts from.
\<close>

record 'g random_source =
  gen_random :: "'g \<Rightarrow> real \<times> 'g"
  gen_below :: "nat \<Rightarrow> 'g \<Rightarrow> nat \<times> 'g"

definition valid_source :: "'g random_source \<Rightarrow> bool" where
  "valid_source R \<longleftrightarrow>
     (\<forall>g. 0 \<le> fst (gen_random R g) \<and> fst (gen_random R g) < 1)
     \<and> (\<forall>n g. 0 < n \<longrightarrow> fst (gen_below R n g) < n)"

definition random_uniform :: "'g random_source \<Rightarrow> real \<Rightarrow> real \<Rightarrow> 'g \<Rightarrow> real \<times> 'g" where
  "random_uniform R a b g = (case gen_random R g of (u, g') \<Rightarrow> (a + (b - a) * u, g'))"

definition random_randint :: "'g random_source \<Rightarrow> int \<Rightarrow> int \<Rightarrow> 'g \<Rightarrow> error + (int \<times> 'g)" where
  "random_randint R a b g =
     (if b < a then Inl ValueError
      else case gen_below R (nat (b - a + 1)) g of (k, g') \<Rightarrow> Inr (a + int k, g'))"

definition random_choice :: "'g random_source \<Rightarrow> 'a list \<Rightarrow> 'g \<Rightarrow> error + ('a \<times> 'g)" where
  "random_choice R xs g =
     (if xs = [] then Inl IndexError
      else case gen_below R (length xs) g of
             (k, g') \<Rightarrow> if k < length xs then Inr (xs ! k, g') else Inl IndexError)"

subsection \<open>Models and helpers\<close>

definition id_chars :: string where
  "id_chars = ''abcdefghijklmnopqrstuvwxyz0123456789''"

fun random_id :: "'g random_source \<Rightarrow> nat \<Rightarrow> 'g \<Rightarrow> error + (string \<times> 'g)" where
  "random_id R 0 g = Inr ([], g)"
| "random_id R (Suc n) g =
     (case random_choice R id_chars g of
        Inl e \<Rightarrow> Inl e
      | Inr (c, g') \<Rightarrow>
          (case random_id R n g' of
             Inl e \<Rightarrow> Inl e
           | Inr (cs, g'') \<Rightarrow> Inr (c # cs, g'')))"

definition random_zipcode :: "'g random_source \<Rightarrow> 'g \<Rightarrow> error + (string \<times> 'g)" where
  "random_zipcode R g =
     (case random_randint R 10000 99999 g of
        Inl e \<Rightarrow> Inl e
      | Inr (z, g') \<Rightarrow> Inr (str_int z, g'))"

subsection \<open>Publisher\<close>

text \<open>
  The publisher is a coroutine: between two of its \<^verbatim>\<open>await\<close>s nothing else
  runs, and what it does to the world is a sequence of effects, in program order: it
  sleeps, it puts a fresh message on the queue (\<open>Send\<close>), it starts a
  \<^verbatim>\<open>delayed_send\<close> task for a fresh message (\<open>SlowSend\<close>), it puts a message
  of the history on the queue again (\<open>Resend\<close>), and at the end it puts the sentinel
  \<^verbatim>\<open>None\<close> (\<open>Complete\<close>). No other task draws random numbers, so the effects
  are a function of the configuration, the generator, and the wall clock: \<open>clock seq\<close>
  is what \<^verbatim>\<open>time.time()\<close> returns when the message \<open>seq\<close> is built.
\<close>

datatype effect = Sleep real | Send message | SlowSend message | Resend message | Complete

type_synonym 'g publisher_state = "'g \<times> message list \<times> effect list"

text \<open>One pass through the body of the \<^verbatim>\<open>for\<close> loop.\<close>

definition publisher_iteration ::
  "config \<Rightarrow> 'g random_source \<Rightarrow> (int \<Rightarrow> real) \<Rightarrow> int \<Rightarrow> 'g publisher_state
     \<Rightarrow> error + 'g publisher_state" where
  "publisher_iteration cfg R clock seq st =
     (case st of (g, produced, effects) \<Rightarrow>
      case random_uniform R (base_delay cfg - jitter cfg) (base_delay cfg + jitter cfg) g of
        (x, g1) \<Rightarrow>
      let delay = max 0 x;
          effects1 = effects @ [Sleep delay] in
      case random_randint R 0 (partitions cfg - 1) g1 of
        Inl e \<Rightarrow> Inl e
      | Inr (pid, g2) \<Rightarrow>
      case random_id R 8 g2 of
        Inl e \<Rightarrow> Inl e
      | Inr (mid, g3) \<Rightarrow>
      case random_randint R 100 10000 g3 of
        Inl e \<Rightarrow> Inl e
      | Inr (v, g4) \<Rightarrow>
      case random_zipcode R g4 of
        Inl e \<Rightarrow> Inl e
      | Inr (z, g5) \<Rightarrow>
      let msg = \<lparr>message_id = mid, sequence_id = seq, partition_id = pid,
                 created_at = clock seq, msg_value = v, zipcode = z\<rparr>;
          produced1 = produced @ [msg] in
      case gen_random R g5 of
        (r1, g6) \<Rightarrow>
      let effects2 = effects1 @ [if r1 < slow_prob cfg then SlowSend msg else Send msg] in
      if produced1 = [] then Inr (g6, produced1, effects2)
      else
        case gen_random R g6 of
          (r2, g7) \<Rightarrow>
        if r2 < dup_prob cfg then
          (case random_choice R produced1 g7 of
             Inl e \<Rightarrow> Inl e
           | Inr (dup_msg, g8) \<Rightarrow> Inr (g8, produced1, effects2 @ [Resend dup_msg]))
        else Inr (g7, produced1, effects2))"

fun publisher_loop ::
  "config \<Rightarrow> 'g random_source \<Rightarrow> (int \<Rightarrow> real) \<Rightarrow> int list \<Rightarrow> 'g publisher_state
     \<Rightarrow> error + 'g publisher_state" where
  "publisher_loop cfg R clock [] st = Inr st"
| "publisher_loop cfg R clock (seq # seqs) st =
     (case publisher_iteration cfg R clock seq st of
        Inl e \<Rightarrow> Inl e
      | Inr st' \<Rightarrow> publisher_loop cfg R clock seqs st')"

text \<open>
  \<^verbatim>\<open>for seq in range(1, total_messages + 1)\<close>, then the sentinel; the publisher
  returns the history. An exception ends the run: \<^verbatim>\<open>asyncio.run\<close> raises it again
  and nothing is analysed.
\<close>

definition publisher ::
  "config \<Rightarrow> 'g random_source \<Rightarrow> (int \<Rightarrow> real) \<Rightarrow> 'g
     \<Rightarrow> error + (message list \<times> effect list \<times> 'g)" where
  "publisher cfg R clock g =
     (case publisher_loop cfg R clock [1..total_messages cfg] (g, [], []) of
        Inl e \<Rightarrow> Inl e
      | Inr (g', produced, effects) \<Rightarrow> Inr (produced, effects @ [Complete], g'))"

text \<open>A generator to run the definitions on: a counter.\<close>

definition counter_source :: "nat random_source" where
  "counter_source = \<lparr>gen_random = (\<lambda>g. (1 / 2, Suc g)), gen_below = (\<lambda>n g. (0, Suc g))\<rparr>"

definition one_slow_message :: config where
  "one_slow_message =
     \<lparr>total_messages = 1, partitions = 3, buffer = 100, base_delay = 1 / 100,
      jitter = 2 / 100, dup_prob = 0, slow_prob = 1\<rparr>"


text \<open>
  The fresh messages among the effects, in the order they are emitted, and a check that
  every message that is sent again has been emitted as a fresh message before.
\<close>

fun fresh_messages :: "effect list \<Rightarrow> message list" where
  "fresh_messages [] = []"
| "fresh_messages (Send m # es) = m # fresh_messages es"
| "fresh_messages (SlowSend m # es) = m # fresh_messages es"
| "fresh_messages (e # es) = fresh_messages es"


subsection \<open>The queue, the subscriber and the event loop\<close>

text \<open>
  \<^verbatim>\<open>main\<close> runs on one event loop with the subscriber task and the
  \<^verbatim>\<open>delayed_send\<close> tasks the publisher creates. A task runs from one suspension
  to the next and nothing else runs meanwhile; which task runs next, and how long a
  \<^verbatim>\<open>sleep\<close> lasts against the work of the others, is up to the loop and the clock.
  The state of the run holds where \<^verbatim>\<open>main\<close> stands (inside the publisher, in
  \<^verbatim>\<open>queue.join()\<close>, awaiting the subscriber task, or past
  \<^verbatim>\<open>analyze\<close>), the effects the publisher has still to perform, the messages of
  the \<^verbatim>\<open>delayed_send\<close> tasks that have not put yet, the queue with its counter
  of unfinished tasks, and the subscriber's records, counter and whether it has returned.
\<close>

datatype main_pc = InPublisher | InJoin | AwaitSubscriber | Analysed

record loop_state =
  main_at :: main_pc
  todo :: "effect list"
  delayed :: "message list"
  queue :: "message option list"
  unfinished_tasks :: nat
  sub_records :: "row list"
  sub_arrival_index :: int
  sub_returned :: bool

text \<open>
  \<^verbatim>\<open>asyncio.Queue(maxsize=args.buffer)\<close>: a queue is full when
  \<^verbatim>\<open>maxsize\<close> is positive and reached. \<^verbatim>\<open>put\<close> on a queue that is not full
  returns without suspending and counts one more unfinished task;
  \<^verbatim>\<open>task_done\<close> counts one less.
\<close>

definition full :: "config \<Rightarrow> loop_state \<Rightarrow> bool" where
  "full cfg s \<longleftrightarrow> 0 < buffer cfg \<and> buffer cfg \<le> int (length (queue s))"

definition put_nowait :: "message option \<Rightarrow> loop_state \<Rightarrow> loop_state" where
  "put_nowait x s = s\<lparr>queue := queue s @ [x], unfinished_tasks := Suc (unfinished_tasks s)\<rparr>"

definition task_done :: "loop_state \<Rightarrow> loop_state" where
  "task_done s = s\<lparr>unfinished_tasks := unfinished_tasks s - 1\<rparr>"

text \<open>
  \<^verbatim>\<open>received = await subscriber_task\<close> and, before it,
  \<^verbatim>\<open>await queue.join()\<close>, which returns once no task is unfinished.
\<close>

definition await_subscriber :: "loop_state \<Rightarrow> loop_state" where
  "await_subscriber s =
     (if sub_returned s then s\<lparr>main_at := Analysed\<rparr> else s\<lparr>main_at := AwaitSubscriber\<rparr>)"

definition queue_join :: "loop_state \<Rightarrow> loop_state" where
  "queue_join s =
     (if unfinished_tasks s = 0 then await_subscriber s else s\<lparr>main_at := InJoin\<rparr>)"

text \<open>
  The publisher runs its effects until one suspends it: a sleep always does, a put does
  while the queue is full. \<^verbatim>\<open>asyncio.create_task(delayed_send(...))\<close> only
  registers the new task. When no effect is left the publisher has returned and
  \<^verbatim>\<open>main\<close> goes on to \<^verbatim>\<open>queue.join()\<close>.
\<close>

fun run_publisher :: "config \<Rightarrow> effect list \<Rightarrow> loop_state \<Rightarrow> loop_state" where
  "run_publisher cfg [] s = queue_join (s\<lparr>todo := []\<rparr>)"
| "run_publisher cfg (Sleep d # es) s = s\<lparr>todo := es\<rparr>"
| "run_publisher cfg (Send m # es) s =
     (if full cfg s then s\<lparr>todo := Send m # es\<rparr>
      else run_publisher cfg es (put_nowait (Some m) s))"
| "run_publisher cfg (SlowSend m # es) s =
     run_publisher cfg es (s\<lparr>delayed := delayed s @ [m]\<rparr>)"
| "run_publisher cfg (Resend m # es) s =
     (if full cfg s then s\<lparr>todo := Resend m # es\<rparr>
      else run_publisher cfg es (put_nowait (Some m) s))"
| "run_publisher cfg (Complete # es) s =
     (if full cfg s then s\<lparr>todo := Complete # es\<rparr>
      else run_publisher cfg es (put_nowait None s))"

definition main_step :: "config \<Rightarrow> loop_state \<Rightarrow> loop_state" where
  "main_step cfg s =
     (case main_at s of
        InPublisher \<Rightarrow> run_publisher cfg (todo s) s
      | InJoin \<Rightarrow> (if unfinished_tasks s = 0 then await_subscriber s else s)
      | AwaitSubscriber \<Rightarrow> (if sub_returned s then s\<lparr>main_at := Analysed\<rparr> else s)
      | Analysed \<Rightarrow> s)"

text \<open>
  \<^verbatim>\<open>delayed_send\<close>: after its sleep the task puts its message, once the queue is
  not full. The sleep is not timed here: the task may put at any later moment.
\<close>

definition delayed_send :: "config \<Rightarrow> nat \<Rightarrow> loop_state \<Rightarrow> loop_state" where
  "delayed_send cfg i s =
     (if i < length (delayed s) \<and> \<not> full cfg s
      then put_nowait (Some (delayed s ! i))
             (s\<lparr>delayed := take i (delayed s) @ drop (Suc i) (delayed s)\<rparr>)
      else s)"

text \<open>
  One turn of the subscriber's loop: it takes the head of the queue, returns on the
  sentinel, and otherwise appends the record of the message. \<open>aclock k\<close> is what
  \<^verbatim>\<open>time.time()\<close> returns at the k-th arrival. The line written to the JSONL file
  is the record appended here.
\<close>

definition subscriber_record :: "message \<Rightarrow> real \<Rightarrow> int \<Rightarrow> row" where
  "subscriber_record item arrival_ts arrival_index =
     [''event'' \<mapsto> VStr ''message_received'',
      ''message_id'' \<mapsto> VStr (message_id item),
      ''sequence_id'' \<mapsto> VInt (sequence_id item),
      ''partition_id'' \<mapsto> VInt (partition_id item),
      ''created_at'' \<mapsto> VFlt (created_at item),
      ''arrival_ts'' \<mapsto> VFlt arrival_ts,
      ''arrival_index'' \<mapsto> VInt arrival_index,
      ''value'' \<mapsto> VInt (msg_value item),
      ''zipcode'' \<mapsto> VStr (zipcode item)]"

definition subscriber :: "(int \<Rightarrow> real) \<Rightarrow> loop_state \<Rightarrow> loop_state" where
  "subscriber aclock s =
     (if sub_returned s then s
      else case queue s of
        [] \<Rightarrow> s
      | None # q \<Rightarrow> (task_done (s\<lparr>queue := q\<rparr>))\<lparr>sub_returned := True\<rparr>
      | Some item # q \<Rightarrow>
          let arrival_index = sub_arrival_index s + 1;
              arrival_ts = aclock arrival_index;
              record = subscriber_record item arrival_ts arrival_index
          in task_done (s\<lparr>queue := q, sub_arrival_index := arrival_index,
                          sub_records := sub_records s @ [record]\<rparr>))"

text \<open>
  A run is the list of the tasks the loop resumes, in order. Once \<^verbatim>\<open>main\<close> has
  returned, \<^verbatim>\<open>asyncio.run\<close> cancels what is left, so nothing runs any more.
\<close>

datatype task = MainTask | SubscriberTask | DelayedSend nat

definition resume :: "config \<Rightarrow> (int \<Rightarrow> real) \<Rightarrow> loop_state \<Rightarrow> task \<Rightarrow> loop_state" where
  "resume cfg aclock s t =
     (if main_at s = Analysed then s
      else case t of
        MainTask \<Rightarrow> main_step cfg s
      | SubscriberTask \<Rightarrow> subscriber aclock s
      | DelayedSend i \<Rightarrow> delayed_send cfg i s)"

definition initial_state :: "effect list \<Rightarrow> loop_state" where
  "initial_state effects =
     \<lparr>main_at = InPublisher, todo = effects, delayed = [], queue = [], unfinished_tasks = 0,
      sub_records = [], sub_arrival_index = 0, sub_returned = False\<rparr>"

definition event_loop ::
  "config \<Rightarrow> (int \<Rightarrow> real) \<Rightarrow> effect list \<Rightarrow> task list \<Rightarrow> loop_state" where
  "event_loop cfg aclock effects schedule =
     foldl (resume cfg aclock) (initial_state effects) schedule"

subsection \<open>Analysis\<close>

text \<open>
  \<^verbatim>\<open>analyze\<close> prints three findings: the sequence ids produced and never
  received, the sequence ids received more than once, and for every partition the
  sequence ids in arrival order with a note when they are not sorted.
\<close>

definition missing :: "message list \<Rightarrow> row list \<Rightarrow> int list" where
  "missing produced received =
     (let received_seq_ids = map (\<lambda>r. cell r ''sequence_id'') received
      in sort (remdups (filter (\<lambda>q. VInt q \<notin> set received_seq_ids)
                          (map sequence_id produced))))"

fun dupes_loop :: "val list \<Rightarrow> val set \<Rightarrow> val list \<Rightarrow> val list" where
  "dupes_loop [] seen dupes = dupes"
| "dupes_loop (seq # seqs) seen dupes =
     (if seq \<in> seen then dupes_loop seqs seen (if seq \<in> set dupes then dupes else dupes @ [seq])
      else dupes_loop seqs (insert seq seen) dupes)"

definition duplicates :: "row list \<Rightarrow> val list" where
  "duplicates received = dupes_loop (map (\<lambda>r. cell r ''sequence_id'') received) {} []"

text \<open>
  The whole of \<^verbatim>\<open>main\<close>: the history the publisher returns and the state the
  loop is left in. \<^verbatim>\<open>analyze\<close> has run when \<^verbatim>\<open>main\<close> got past both awaits.
\<close>

definition simulation ::
  "config \<Rightarrow> 'g random_source \<Rightarrow> (int \<Rightarrow> real) \<Rightarrow> (int \<Rightarrow> real) \<Rightarrow> 'g \<Rightarrow> task list
     \<Rightarrow> error + (message list \<times> loop_state)" where
  "simulation cfg R clock aclock g schedule =
     (case publisher cfg R clock g of
        Inl e \<Rightarrow> Inl e
      | Inr (produced, effects, g') \<Rightarrow>
          Inr (produced, event_loop cfg aclock effects schedule))"

text \<open>The message the counter generator makes first.\<close>

definition first_message :: "real \<Rightarrow> message" where
  "first_message t =
     \<lparr>message_id = ''aaaaaaaa'', sequence_id = 1, partition_id = 0, created_at = t,
      msg_value = 100, zipcode = ''10000''\<rparr>"

text \<open>The states a run passes through when its only message takes the slow path.\<close>

definition lone_slow_run :: "real \<Rightarrow> message \<Rightarrow> loop_state \<Rightarrow> bool" where
  "lone_slow_run d m s \<longleftrightarrow>
     sub_records s = []
     \<and> ((main_at s = InPublisher
            \<and> (todo s = [Sleep d, SlowSend m, Complete] \<or> todo s = [SlowSend m, Complete])
            \<and> queue s = [] \<and> delayed s = [] \<and> \<not> sub_returned s)
         \<or> (main_at s \<noteq> InPublisher \<and> todo s = [] \<and> \<not> sub_returned s
              \<and> (\<exists>q. queue s = None # q))
         \<or> sub_returned s)"

subsection \<open>Runs compared up to the readings of the clock\<close>

text \<open>
  The publisher stamps \<^verbatim>\<open>created_at\<close> and the subscriber stamps
  \<^verbatim>\<open>arrival_ts\<close> with \<^verbatim>\<open>time.time()\<close>. The functions below
  overwrite these two fields with 0 in a message, an effect, a received record, a state of the
  event loop and the results of \<^const>\<open>publisher\<close> and \<^const>\<open>simulation\<close>;
  every other field is left as it is.
\<close>

definition untimed :: "message \<Rightarrow> message" where
  "untimed m = m\<lparr>created_at := 0\<rparr>"

fun untimed_effect :: "effect \<Rightarrow> effect" where
  "untimed_effect (Sleep d) = Sleep d"
| "untimed_effect (Send m) = Send (untimed m)"
| "untimed_effect (SlowSend m) = SlowSend (untimed m)"
| "untimed_effect (Resend m) = Resend (untimed m)"
| "untimed_effect Complete = Complete"

definition untimed_record :: "row \<Rightarrow> row" where
  "untimed_record r = r(''created_at'' \<mapsto> VFlt 0, ''arrival_ts'' \<mapsto> VFlt 0)"

definition untimed_state :: "loop_state \<Rightarrow> loop_state" where
  "untimed_state s =
     s\<lparr>todo := map untimed_effect (todo s),
       delayed := map untimed (delayed s),
       queue := map (map_option untimed) (queue s),
       sub_records := map untimed_record (sub_records s)\<rparr>"

definition untimed_history ::
  "error + (message list \<times> effect list \<times> 'g) \<Rightarrow> error + (message list \<times> effect list \<times> 'g)" where
  "untimed_history res =
     (case res of
        Inl e \<Rightarrow> Inl e
      | Inr (produced, effects, g) \<Rightarrow> Inr (map untimed produced, map untimed_effect effects, g))"

definition untimed_run ::
  "error + (message list \<times> loop_state) \<Rightarrow> error + (message list \<times> loop_state)" where
  "untimed_run res =
     (case res of
        Inl e \<Rightarrow> Inl e
      | Inr (produced, s) \<Rightarrow> Inr (map untimed produced, untimed_state s))"

definition untimed_publisher_state :: "'g publisher_state \<Rightarrow> 'g publisher_state" where
  "untimed_publisher_state st =
     (case st of (g, produced, effects) \<Rightarrow> (g, map untimed produced, map untimed_effect effects))"

section \<open>Facts about the polars operations\<close>

lemma unique_first_subset: "set (unique_first key seen xs) \<subseteq> set xs"
  by (induction xs arbitrary: seen) auto

lemma unique_first_keys: "key ` set (unique_first key seen xs) = key ` set xs - seen"
  by (induction xs arbitrary: seen) auto

lemma unique_first_distinct: "distinct (map key (unique_first key seen xs))"
  by (induction xs arbitrary: seen) (auto simp: unique_first_keys)

lemma unique_first_snoc:
  "unique_first key seen (xs @ [x]) =
     unique_first key seen xs @ (if key x \<in> seen \<union> key ` set xs then [] else [x])"
  by (induction xs arbitrary: seen) auto

lemma unique_first_id:
  "distinct (map key xs) \<Longrightarrow> key ` set xs \<inter> seen = {} \<Longrightarrow> unique_first key seen xs = xs"
  by (induction xs arbitrary: seen) auto


lemma unique_last_subset: "set (unique_last key xs) \<subseteq> set xs"
  by (induction xs) auto

lemma unique_last_keys: "key ` set (unique_last key xs) = key ` set xs"
  by (induction xs) auto

lemma unique_last_distinct: "distinct (map key (unique_last key xs))"
  by (induction xs) (auto simp: unique_last_keys)

lemma unique_last_id: "distinct (map key xs) \<Longrightarrow> unique_last key xs = xs"
  by (induction xs) auto

lemma unique_last_mem:
  "x \<in> set (unique_last key xs) \<longleftrightarrow>
     (\<exists>ys zs. xs = ys @ x # zs \<and> key x \<notin> key ` set zs)"
proof (induction xs)
  case Nil
  then show ?case by simp
next
  case (Cons a xs)
  have split: "(\<exists>ys zs. a # xs = ys @ x # zs \<and> key x \<notin> key ` set zs) \<longleftrightarrow>
        (x = a \<and> key a \<notin> key ` set xs) \<or> (\<exists>ys zs. xs = ys @ x # zs \<and> key x \<notin> key ` set zs)"
    (is "?L \<longleftrightarrow> ?A \<or> ?R")
  proof
    assume ?L
    then obtain ys zs where h: "a # xs = ys @ x # zs" "key x \<notin> key ` set zs" by blast
    show "?A \<or> ?R"
    proof (cases ys)
      case Nil
      with h show ?thesis by auto
    next
      case (Cons b ys')
      with h have "xs = ys' @ x # zs" by simp
      with h(2) show ?thesis by blast
    qed
  next
    assume "?A \<or> ?R"
    then show ?L
    proof
      assume ?A
      then have "a # xs = [] @ x # xs" "key x \<notin> key ` set xs" by auto
      then show ?L by blast
    next
      assume ?R
      then obtain ys zs where h: "xs = ys @ x # zs" "key x \<notin> key ` set zs" by blast
      then have "a # xs = (a # ys) @ x # zs" by simp
      with h(2) show ?L by blast
    qed
  qed
  show ?case
  proof (cases "key a \<in> key ` set xs")
    case True
    with split Cons.IH show ?thesis by auto
  next
    case False
    with split Cons.IH show ?thesis by auto
  qed
qed


lemma row_order_length: "row_order ord \<Longrightarrow> length (ord xs) = length xs"
  unfolding row_order_def by (metis size_mset)

lemma row_order_set: "row_order ord \<Longrightarrow> set (ord xs) = set xs"
  unfolding row_order_def by (metis set_mset_mset)

lemma row_order_distinct:
  "row_order ord \<Longrightarrow> distinct (map key (ord xs)) = distinct (map key xs)"
proof -
  assume "row_order ord"
  then have "mset (map key (ord xs)) = mset (map key xs)"
    unfolding row_order_def by (metis mset_map)
  then show ?thesis by (rule mset_eq_imp_distinct_iff)
qed

lemma sorts_by_set: "sorts_by srt \<Longrightarrow> set (srt c xs) = set xs"
  unfolding sorts_by_def by (metis set_mset_mset)

lemma sorts_by_length: "sorts_by srt \<Longrightarrow> length (srt c xs) = length xs"
  unfolding sorts_by_def by (metis size_mset)

lemma sorts_by_distinct:
  "sorts_by srt \<Longrightarrow> distinct (map key (srt c xs)) = distinct (map key xs)"
proof -
  assume "sorts_by srt"
  then have "mset (map key (srt c xs)) = mset (map key xs)"
    unfolding sorts_by_def by (metis mset_map)
  then show ?thesis by (rule mset_eq_imp_distinct_iff)
qed

lemma sorts_by_sorted:
  "sorts_by srt \<Longrightarrow> sorted (map (\<lambda>r. sort_rank (cell r c)) (srt c xs))"
  unfolding sorts_by_def by blast

lemma cell_upd_same [simp]: "cell (r(c \<mapsto> v)) c = v"
  by (simp add: cell_def)

lemma cell_upd_other [simp]: "c' \<noteq> c \<Longrightarrow> cell (r(c \<mapsto> v)) c' = cell r c'"
  by (simp add: cell_def)

lemma compute_composite_hash_upd [simp]:
  "compute_composite_hash E (r(''composite_hash'' \<mapsto> v)) = compute_composite_hash E r"
  by (simp add: compute_composite_hash_def)

lemma composite_hash_cell_upd [simp]:
  "composite_hash_cell E (r(''composite_hash'' \<mapsto> v)) = composite_hash_cell E r"
  by (simp add: composite_hash_cell_def)

lemma hashed_idem [simp]: "hashed E (hashed E r) = hashed E r"
  by (simp add: hashed_def)

lemma hashed_d05_idem [simp]: "hashed_d05 E (hashed_d05 E r) = hashed_d05 E r"
  by (simp add: hashed_d05_def)

lemma cell_hashed [simp]: "cell (hashed E r) ''composite_hash'' = VStr (compute_composite_hash E r)"
  by (simp add: hashed_def)

lemma cell_hashed_other: "c \<noteq> ''composite_hash'' \<Longrightarrow> cell (hashed E r) c = cell r c"
  by (simp add: hashed_def)

lemma cell_hashed_d05 [simp]: "cell (hashed_d05 E r) ''composite_hash'' = composite_hash_cell E r"
  by (simp add: hashed_d05_def)

lemma cell_hashed_d05_other: "c \<noteq> ''composite_hash'' \<Longrightarrow> cell (hashed_d05 E r) c = cell r c"
  by (simp add: hashed_d05_def)

lemma map_hashed_id:
  "set xs \<subseteq> hashed E ` A \<Longrightarrow> map (hashed E) xs = xs"
  by (induction xs) auto

lemma map_hashed_d05_id:
  "set xs \<subseteq> hashed_d05 E ` A \<Longrightarrow> map (hashed_d05 E) xs = xs"
  by (induction xs) auto

lemma add_column_name_idem [simp]: "add_column_name c (add_column_name c cs) = add_column_name c cs"
  by (simp add: add_column_name_def)

lemma set_add_column_name [simp]: "set (add_column_name c cs) = insert c (set cs)"
  by (auto simp: add_column_name_def)

lemma missing_columns_empty: "missing_columns cs df = [] \<longleftrightarrow> set cs \<subseteq> set (columns df)"
  by (auto simp: missing_columns_def filter_empty_conv)

lemma missing_columns_Cons: "missing_columns cs df = c # rest \<Longrightarrow> c \<in> set cs \<and> c \<notin> set (columns df)"
proof -
  assume "missing_columns cs df = c # rest"
  then have "c \<in> set (filter (\<lambda>c. c \<notin> set (columns df)) cs)"
    by (simp add: missing_columns_def)
  then show ?thesis by simp
qed

lemma with_composite_hash_ok:
  "set key_columns \<subseteq> set (columns df) \<Longrightarrow>
   with_composite_hash E df =
     Inr \<lparr>columns = add_column_name ''composite_hash'' (columns df), rows = map (hashed E) (rows df)\<rparr>"
proof -
  assume "set key_columns \<subseteq> set (columns df)"
  then have "missing_columns [''message_id'', ''sequence_id'', ''partition_id''] df = []"
    by (simp add: missing_columns_empty key_columns_def)
  then show ?thesis
    by (simp add: with_composite_hash_def pl_with_column_def hashed_def)
qed

lemma with_composite_hash_fail:
  "\<not> set key_columns \<subseteq> set (columns df) \<Longrightarrow>
   \<exists>c. c \<in> set key_columns \<and> c \<notin> set (columns df) \<and> with_composite_hash E df = Inl (ColumnNotFoundError c)"
proof -
  assume a: "\<not> set key_columns \<subseteq> set (columns df)"
  then have "missing_columns [''message_id'', ''sequence_id'', ''partition_id''] df \<noteq> []"
    by (simp add: missing_columns_empty key_columns_def)
  then obtain c rest where m: "missing_columns [''message_id'', ''sequence_id'', ''partition_id''] df = c # rest"
    by (cases "missing_columns [''message_id'', ''sequence_id'', ''partition_id''] df") auto
  from missing_columns_Cons[OF m] have "c \<in> set key_columns" "c \<notin> set (columns df)"
    by (simp_all add: key_columns_def)
  with m show ?thesis by (auto simp: with_composite_hash_def)
qed

lemma add_composite_hash_column_ok:
  "set key_columns \<subseteq> set (columns df) \<Longrightarrow>
   add_composite_hash_column E df =
     Inr \<lparr>columns = add_column_name ''composite_hash'' (columns df), rows = map (hashed_d05 E) (rows df)\<rparr>"
proof -
  assume "set key_columns \<subseteq> set (columns df)"
  then have "missing_columns [''message_id'', ''sequence_id'', ''partition_id''] df = []"
    by (simp add: missing_columns_empty key_columns_def)
  then show ?thesis
    by (simp add: add_composite_hash_column_def pl_with_column_def hashed_d05_def)
qed

lemma add_composite_hash_column_fail:
  "\<not> set key_columns \<subseteq> set (columns df) \<Longrightarrow>
   \<exists>c. c \<in> set key_columns \<and> c \<notin> set (columns df) \<and> add_composite_hash_column E df = Inl (ColumnNotFoundError c)"
proof -
  assume a: "\<not> set key_columns \<subseteq> set (columns df)"
  then have "missing_columns [''message_id'', ''sequence_id'', ''partition_id''] df \<noteq> []"
    by (simp add: missing_columns_empty key_columns_def)
  then obtain c rest where m: "missing_columns [''message_id'', ''sequence_id'', ''partition_id''] df = c # rest"
    by (cases "missing_columns [''message_id'', ''sequence_id'', ''partition_id''] df") auto
  from missing_columns_Cons[OF m] have "c \<in> set key_columns" "c \<notin> set (columns df)"
    by (simp_all add: key_columns_def)
  with m show ?thesis by (auto simp: add_composite_hash_column_def)
qed

lemma eager_dedup_ok:
  assumes "set key_columns \<subseteq> set (columns df)"
  shows "\<exists>m. eager_dedup E ord df =
     Inr (\<lparr>columns = add_column_name ''composite_hash'' (columns df),
           rows = ord (unique_first (\<lambda>r. cell r ''composite_hash'') {} (map (hashed E) (rows df)))\<rparr>, m)"
  using assms by (simp add: eager_dedup_def with_composite_hash_ok pl_unique_def Let_def)

lemma eager_dedup_fail:
  assumes "\<not> set key_columns \<subseteq> set (columns df)"
  shows "\<exists>c. c \<in> set key_columns \<and> c \<notin> set (columns df) \<and> eager_dedup E ord df = Inl (ColumnNotFoundError c)"
  using with_composite_hash_fail[OF assms, of E] by (auto simp: eager_dedup_def)

lemma merge_dedup_polars_ok:
  assumes "set key_columns \<subseteq> set (columns df)" "''created_at'' \<in> set (columns df)"
  shows "\<exists>m. merge_dedup_polars E srt ord df =
     Inr (\<lparr>columns = add_column_name ''composite_hash'' (columns df),
           rows = ord (unique_last (\<lambda>r. cell r ''message_id'') (srt ''created_at'' (map (hashed E) (rows df))))\<rparr>, m)"
proof -
  from assms(1) have "''message_id'' \<in> set (columns df)" by (simp add: key_columns_def)
  with assms show ?thesis
    by (simp add: merge_dedup_polars_def with_composite_hash_ok pl_unique_def pl_sort_def Let_def)
qed

lemma merge_dedup_polars_fail:
  assumes "\<not> (set key_columns \<subseteq> set (columns df) \<and> ''created_at'' \<in> set (columns df))"
  shows "\<exists>c. c \<in> set (key_columns @ [''created_at'']) \<and> c \<notin> set (columns df) \<and> merge_dedup_polars E srt ord df = Inl (ColumnNotFoundError c)"
proof (cases "set key_columns \<subseteq> set (columns df)")
  case False
  from with_composite_hash_fail[OF False, of E] show ?thesis
    by (auto simp: merge_dedup_polars_def)
next
  case True
  with assms have "''created_at'' \<notin> set (columns df)" by simp
  with True show ?thesis
    by (simp add: merge_dedup_polars_def with_composite_hash_ok pl_sort_def)
qed

lemma sorts_by_stable_sort: "sorts_by stable_sort"
  by (simp add: sorts_by_def stable_sort_def)

lemma sorts_by_ties_reversed_sort: "sorts_by ties_reversed_sort"
  by (simp add: sorts_by_def ties_reversed_sort_def)

lemma row_order_id: "row_order (\<lambda>xs. xs)"
  by (simp add: row_order_def)





lemma unique_last_length: "length (unique_last key xs) \<le> length xs"
  by (induction xs) (auto simp: le_SucI)



lemma eager_dedup_Inr:
  assumes "eager_dedup E ord df = Inr (out, m)"
  shows "set key_columns \<subseteq> set (columns df)
       \<and> out = \<lparr>columns = add_column_name ''composite_hash'' (columns df),
                 rows = ord (unique_first (\<lambda>r. cell r ''composite_hash'') {}
                          (map (hashed E) (rows df)))\<rparr>"
proof (cases "set key_columns \<subseteq> set (columns df)")
  case True
  from eager_dedup_ok[OF True, of E ord] assms show ?thesis using True by auto
next
  case False
  from eager_dedup_fail[OF False, of E ord] assms show ?thesis by auto
qed

lemma merge_dedup_polars_Inr:
  assumes "merge_dedup_polars E srt ord df = Inr (out, m)"
  shows "set key_columns \<subseteq> set (columns df) \<and> ''created_at'' \<in> set (columns df)
       \<and> out = \<lparr>columns = add_column_name ''composite_hash'' (columns df),
                 rows = ord (unique_last (\<lambda>r. cell r ''message_id'')
                          (srt ''created_at'' (map (hashed E) (rows df))))\<rparr>"
proof (cases "set key_columns \<subseteq> set (columns df) \<and> ''created_at'' \<in> set (columns df)")
  case True
  then have a: "set key_columns \<subseteq> set (columns df)" and b: "''created_at'' \<in> set (columns df)"
    by simp_all
  from merge_dedup_polars_ok[OF a b, of E srt ord] assms show ?thesis using True by auto
next
  case False
  from merge_dedup_polars_fail[OF False, of E srt ord] assms show ?thesis by auto
qed

lemma unique_last_sorted_max:
  assumes s: "sorted (map rank xs)" and r: "r \<in> set (unique_last key xs)"
    and q: "q \<in> set xs" and k: "key q = key r"
  shows "rank q \<le> rank r"
proof -
  from r obtain ys zs where x: "xs = ys @ r # zs" and n: "key r \<notin> key ` set zs"
    unfolding unique_last_mem by (elim exE conjE)
  from q x have "q \<in> set ys \<or> q = r \<or> q \<in> set zs" by auto
  moreover have "q \<notin> set zs"
  proof
    assume "q \<in> set zs"
    then have "key q \<in> key ` set zs" by (rule imageI)
    with n k show False by simp
  qed
  ultimately have "q \<in> set ys \<or> q = r" by blast
  then show ?thesis
  proof
    assume "q \<in> set ys"
    with s x show ?thesis by (auto simp: sorted_append)
  next
    assume "q = r"
    then show ?thesis by simp
  qed
qed

lemma last_write_wins:
  fixes h :: "row \<Rightarrow> row" and xs :: "row list" and kc sc :: string
    and srt :: "string \<Rightarrow> row list \<Rightarrow> row list" and ord :: "row list \<Rightarrow> row list"
  assumes srt: "sorts_by srt" and ord: "row_order ord"
    and kh: "\<And>r. cell (h r) kc = cell r kc" and rh: "\<And>r. cell (h r) sc = cell r sc"
  defines "out \<equiv> ord (unique_last (\<lambda>r. cell r kc) (srt sc (map h xs)))"
  shows "mset out = mset (unique_last (\<lambda>r. cell r kc) (srt sc (map h xs)))
       \<and> length out \<le> length xs
       \<and> distinct (map (\<lambda>r. cell r kc) out)
       \<and> (\<lambda>r. cell r kc) ` set out = (\<lambda>r. cell r kc) ` set xs
       \<and> (\<forall>r' \<in> set out. \<exists>r \<in> set xs. r' = h r
             \<and> (\<forall>q \<in> set xs. cell q kc = cell r kc
                   \<longrightarrow> sort_rank (cell q sc) \<le> sort_rank (cell r sc)))"
proof -
  let ?k = "\<lambda>r::row. cell r kc"
  let ?rk = "\<lambda>r::row. sort_rank (cell r sc)"
  let ?s = "srt sc (map h xs)"
  have ms: "mset out = mset (unique_last ?k ?s)"
    using ord by (simp add: out_def row_order_def)
  have l: "length out \<le> length xs"
    using unique_last_length[of ?k ?s]
    by (simp add: out_def row_order_length[OF ord] sorts_by_length[OF srt])
  have d: "distinct (map ?k out)"
    by (simp add: out_def row_order_distinct[OF ord] unique_last_distinct)
  have so: "set out = set (unique_last ?k ?s)"
    by (simp add: out_def row_order_set[OF ord])
  have ss: "set ?s = h ` set xs"
    by (simp add: sorts_by_set[OF srt])
  have ks: "?k ` set out = ?k ` set xs"
    by (simp add: so unique_last_keys ss image_image kh)
  have mx: "\<forall>r' \<in> set out. \<exists>r \<in> set xs. r' = h r
                \<and> (\<forall>q \<in> set xs. ?k q = ?k r \<longrightarrow> ?rk q \<le> ?rk r)"
  proof
    fix r' assume r': "r' \<in> set out"
    then have u: "r' \<in> set (unique_last ?k ?s)" by (simp add: so)
    with unique_last_subset[of ?k ?s] have "r' \<in> set ?s" by auto
    then obtain r where r: "r \<in> set xs" "r' = h r" by (auto simp: ss)
    have "\<forall>q \<in> set xs. ?k q = ?k r \<longrightarrow> ?rk q \<le> ?rk r"
    proof (intro ballI impI)
      fix q assume q: "q \<in> set xs" and kq: "?k q = ?k r"
      from q have qs: "h q \<in> set ?s" by (simp add: ss)
      from kq r(2) have kk: "?k (h q) = ?k r'" by (simp add: kh)
      from unique_last_sorted_max[of ?rk ?s r' ?k "h q",
          OF sorts_by_sorted[OF srt] u qs kk]
      show "?rk q \<le> ?rk r" by (simp add: rh r(2))
    qed
    with r show "\<exists>r \<in> set xs. r' = h r
                \<and> (\<forall>q \<in> set xs. ?k q = ?k r \<longrightarrow> ?rk q \<le> ?rk r)"
      by (intro bexI[of _ r] conjI)
  qed
  from ms l d ks mx show ?thesis by (intro conjI)
qed

lemma PolarsMergeStrategy_process_ok:
  assumes "set key_columns \<subseteq> set (columns df)" "''created_at'' \<in> set (columns df)"
  shows "\<exists>m. PolarsMergeStrategy_process E srt ord default_merge_config None df =
     (Some \<lparr>columns = add_column_name ''composite_hash'' (columns df),
           rows = ord (unique_last (\<lambda>r. cell r ''message_id'') (srt ''created_at'' (map (hashed_d05 E) (rows df))))\<rparr>,
      Inr (\<lparr>columns = add_column_name ''composite_hash'' (columns df),
           rows = ord (unique_last (\<lambda>r. cell r ''message_id'') (srt ''created_at'' (map (hashed_d05 E) (rows df))))\<rparr>, m))"
proof -
  from assms(1) have "''message_id'' \<in> set (columns df)" by (simp add: key_columns_def)
  with assms show ?thesis
    by (simp add: PolarsMergeStrategy_process_def default_merge_config_def config_get_def
        add_composite_hash_column_ok pl_unique_def pl_sort_def write_deltalake_def Let_def)
qed

lemma plain_hash [simp]:
  "compute_composite_hash plain_externals (received_record mid seq part c i v)
     = mid @ str_int seq @ str_int part"
  by (simp add: compute_composite_hash_def received_record_def cell_def py_format_def
      plain_externals_def)



lemma eager_on_tied_batch:
  "eager_dedup plain_externals (\<lambda>xs. xs) tied_batch =
     Inr (\<lparr>columns = record_columns @ [''composite_hash''],
           rows = [(received_record ''abc'' 1 0 1 1 500)(''composite_hash'' \<mapsto> VStr ''abc10'')]\<rparr>,
          [(''strategy'', VStr ''eager_dedup''), (''initial_records'', VInt 2),
           (''final_records'', VInt 1), (''dropped_duplicates'', VInt 1)])"
  by (simp add: eager_dedup_def with_composite_hash_def missing_columns_def tied_batch_def
      record_columns_def pl_with_column_def add_column_name_def pl_unique_def Let_def
      str_int_def str_nat.simps)

lemma received_record_cells [simp]:
  "cell (received_record mid seq part c i v) ''message_id'' = VStr mid"
  "cell (received_record mid seq part c i v) ''created_at'' = VFlt c"
  "cell (received_record mid seq part c i v) ''arrival_index'' = VInt i"
  by (simp_all add: received_record_def cell_def)

lemma merge_on_tied_batch_stable:
  "merge_dedup_polars plain_externals stable_sort (\<lambda>xs. xs) tied_batch =
     Inr (\<lparr>columns = record_columns @ [''composite_hash''],
           rows = [(received_record ''abc'' 1 0 1 2 700)(''composite_hash'' \<mapsto> VStr ''abc10'')]\<rparr>,
          [(''strategy'', VStr ''merge_dedup_polars''), (''initial_records'', VInt 2),
           (''final_records'', VInt 1), (''merged_duplicates'', VInt 1),
           (''dedup_method'', VStr ''last-write-wins by message_id'')])"
  by (simp add: merge_dedup_polars_def with_composite_hash_def missing_columns_def tied_batch_def
      record_columns_def pl_with_column_def add_column_name_def pl_unique_def pl_sort_def Let_def
      stable_sort_def sort_rank_def str_int_def str_nat.simps)

lemma merge_on_tied_batch_reversed:
  "merge_dedup_polars plain_externals ties_reversed_sort (\<lambda>xs. xs) tied_batch =
     Inr (\<lparr>columns = record_columns @ [''composite_hash''],
           rows = [(received_record ''abc'' 1 0 1 1 500)(''composite_hash'' \<mapsto> VStr ''abc10'')]\<rparr>,
          [(''strategy'', VStr ''merge_dedup_polars''), (''initial_records'', VInt 2),
           (''final_records'', VInt 1), (''merged_duplicates'', VInt 1),
           (''dedup_method'', VStr ''last-write-wins by message_id'')])"
  by (simp add: merge_dedup_polars_def with_composite_hash_def missing_columns_def tied_batch_def
      record_columns_def pl_with_column_def add_column_name_def pl_unique_def pl_sort_def Let_def
      ties_reversed_sort_def sort_rank_def str_int_def str_nat.simps)

lemma key_columns_record_columns: "set key_columns \<subseteq> set record_columns"
  by (simp add: key_columns_def record_columns_def)

lemma created_at_record_columns: "''created_at'' \<in> set record_columns"
  by (simp add: record_columns_def)

lemma add_hashes_ok:
  assumes "set key_columns \<subseteq> set (columns df)" and "''created_at'' \<in> set (columns df)"
    and "\<forall>r \<in> set (rows df). epoch_seconds E (cell r ''created_at'') \<noteq> None"
  shows "\<exists>m. add_hashes E df =
           Inr (\<lparr>columns = bronze_columns (columns df),
                 rows = map (bronze_row E (columns df)) (rows df)\<rparr>, m)"
proof -
  from assms(1,2) have
    "missing_columns [''message_id'', ''sequence_id'', ''partition_id'', ''created_at''] df = []"
    by (simp add: missing_columns_empty key_columns_def)
  moreover from assms(3) have
    "\<not> (\<exists>r \<in> set (rows df). epoch_seconds E (cell r ''created_at'') = None)" by simp
  ultimately show ?thesis
    by (simp add: add_hashes_def bronze_columns_def bronze_row_def Let_def del: bex_simps)
qed

lemma add_hashes_fail:
  assumes "\<not> (set key_columns \<subseteq> set (columns df) \<and> ''created_at'' \<in> set (columns df))"
  shows "\<exists>c. c \<in> set (key_columns @ [''created_at'']) \<and> c \<notin> set (columns df)
           \<and> add_hashes E df = Inl (ColumnNotFoundError c)"
proof -
  let ?cs = "[''message_id'', ''sequence_id'', ''partition_id'', ''created_at'']"
  from assms have "missing_columns ?cs df \<noteq> []"
    by (simp add: missing_columns_empty key_columns_def)
  then obtain c rest where m: "missing_columns ?cs df = c # rest"
    by (cases "missing_columns ?cs df") auto
  from missing_columns_Cons[OF m] have "c \<in> set (key_columns @ [''created_at''])"
    and "c \<notin> set (columns df)"
    by (simp_all add: key_columns_def)
  moreover from m have "add_hashes E df = Inl (ColumnNotFoundError c)"
    by (simp add: add_hashes_def Let_def)
  ultimately show ?thesis by (intro exI conjI)
qed

lemma cell_hashed_d05_created_at [simp]:
  "cell (hashed_d05 E r) ''created_at'' = cell r ''created_at''"
  by (simp add: cell_hashed_d05_other)

lemma Bronze_process_ok:
  assumes "set key_columns \<subseteq> set (columns df)" and "''created_at'' \<in> set (columns df)"
    and "\<forall>r \<in> set (rows df). epoch_seconds E (cell r ''created_at'') \<noteq> None"
    and "out = \<lparr>columns = bronze_columns (columns df),
                rows = map (bronze_row_d05 E (columns df)) (rows df)\<rparr>"
  shows "\<exists>m. BronzeAppendStrategy_process E None df = (Some out, Inr (out, m))
           \<and> BronzeAppendStrategy_process E (Some out) df
               = (Some (out\<lparr>rows := rows out @ rows out\<rparr>), Inr (out, m))"
proof -
  from assms(3) have
    n: "\<not> (\<exists>r \<in> hashed_d05 E ` set (rows df).
            epoch_seconds E (cell r ''created_at'') = None)" by simp
  show ?thesis
    using assms(2) n
    by (simp add: BronzeAppendStrategy_process_def add_composite_hash_column_ok[OF assms(1)]
        assms(4) bronze_columns_def bronze_row_d05_def write_deltalake_def Let_def comp_def
        del: bex_simps)
qed

lemma Bronze_process_fail:
  assumes "\<not> (set key_columns \<subseteq> set (columns df) \<and> ''created_at'' \<in> set (columns df))"
  shows "\<exists>c. c \<in> set (key_columns @ [''created_at'']) \<and> c \<notin> set (columns df)
           \<and> BronzeAppendStrategy_process E table df = (table, Inl (ColumnNotFoundError c))"
proof (cases "set key_columns \<subseteq> set (columns df)")
  case False
  from add_composite_hash_column_fail[OF False, of E] obtain c where
    c: "c \<in> set key_columns" "c \<notin> set (columns df)"
       "add_composite_hash_column E df = Inl (ColumnNotFoundError c)" by (elim exE conjE)
  from c(1) have "c \<in> set (key_columns @ [''created_at''])" by simp
  moreover from c(3) have
    "BronzeAppendStrategy_process E table df = (table, Inl (ColumnNotFoundError c))"
    by (simp add: BronzeAppendStrategy_process_def Let_def)
  ultimately show ?thesis using c(2) by (intro exI conjI)
next
  case True
  with assms have n: "''created_at'' \<notin> set (columns df)" by simp
  then have "BronzeAppendStrategy_process E table df
               = (table, Inl (ColumnNotFoundError ''created_at''))"
    by (simp add: BronzeAppendStrategy_process_def add_composite_hash_column_ok[OF True] Let_def)
  moreover have "''created_at'' \<in> set (key_columns @ [''created_at''])" by simp
  ultimately show ?thesis using n by (intro exI conjI)
qed

lemma Eager_process_fail:
  assumes "\<not> set key_columns \<subseteq> set (columns df)"
  shows "\<exists>c. c \<in> set key_columns \<and> c \<notin> set (columns df)
           \<and> EagerDedupStrategy_process E ord table df = (table, Inl (ColumnNotFoundError c))"
proof -
  from add_composite_hash_column_fail[OF assms, of E] obtain c where
    c: "c \<in> set key_columns" "c \<notin> set (columns df)"
       "add_composite_hash_column E df = Inl (ColumnNotFoundError c)" by (elim exE conjE)
  from c(3) have
    "EagerDedupStrategy_process E ord table df = (table, Inl (ColumnNotFoundError c))"
    by (simp add: EagerDedupStrategy_process_def Let_def)
  with c(1,2) show ?thesis by (intro exI conjI)
qed

lemma Merge_process_fail:
  assumes "\<not> (set key_columns \<subseteq> set (columns df) \<and> ''created_at'' \<in> set (columns df))"
  shows "\<exists>c. c \<in> set (key_columns @ [''created_at'']) \<and> c \<notin> set (columns df)
           \<and> PolarsMergeStrategy_process E srt ord default_merge_config table df
               = (table, Inl (ColumnNotFoundError c))"
proof (cases "set key_columns \<subseteq> set (columns df)")
  case False
  from add_composite_hash_column_fail[OF False, of E] obtain c where
    c: "c \<in> set key_columns" "c \<notin> set (columns df)"
       "add_composite_hash_column E df = Inl (ColumnNotFoundError c)" by (elim exE conjE)
  from c(1) have "c \<in> set (key_columns @ [''created_at''])" by simp
  moreover from c(3) have
    "PolarsMergeStrategy_process E srt ord default_merge_config table df
       = (table, Inl (ColumnNotFoundError c))"
    by (simp add: PolarsMergeStrategy_process_def Let_def)
  ultimately show ?thesis using c(2) by (intro exI conjI)
next
  case True
  with assms have n: "''created_at'' \<notin> set (columns df)" by simp
  then have "PolarsMergeStrategy_process E srt ord default_merge_config table df
               = (table, Inl (ColumnNotFoundError ''created_at''))"
    by (simp add: PolarsMergeStrategy_process_def add_composite_hash_column_ok[OF True]
        default_merge_config_def config_get_def pl_sort_def Let_def)
  moreover have "''created_at'' \<in> set (key_columns @ [''created_at''])" by simp
  ultimately show ?thesis using n by (intro exI conjI)
qed

lemma bronze_row_cells:
  "cell (bronze_row E cols r) ''composite_hash'' = VStr (compute_composite_hash E r)"
  "cell (bronze_row E cols r) ''payload_hash'' = VStr (compute_payload_hash E cols r)"
  "c \<notin> {''composite_hash'', ''payload_hash'', ''partition_date''}
     \<Longrightarrow> cell (bronze_row E cols r) c = cell r c"
  by (simp_all add: bronze_row_def)

lemma bronze_row_d05_cells:
  "cell (bronze_row_d05 E cols r) ''composite_hash'' = composite_hash_cell E r"
  "cell (bronze_row_d05 E cols r) ''payload_hash''
     = VStr (compute_payload_hash_d05 E (map (\<lambda>c. (c, cell (hashed_d05 E r) c)) cols))"
  "c \<notin> {''composite_hash'', ''payload_hash'', ''partition_date''}
     \<Longrightarrow> cell (bronze_row_d05 E cols r) c = cell r c"
  by (simp_all add: bronze_row_d05_def cell_hashed_d05_other)

lemma two_record_batch_epoch:
  "\<forall>r \<in> set (rows two_record_batch). epoch_seconds E (cell r ''created_at'') \<noteq> None"
  by (simp add: two_record_batch_def epoch_seconds_def)

section \<open>Facts about the simulation\<close>

lemma fresh_messages_append [simp]:
  "fresh_messages (es @ es') = fresh_messages es @ fresh_messages es'"
  by (induction es rule: fresh_messages.induct) auto


lemma random_randint_ok:
  "a \<le> b \<Longrightarrow> \<exists>k g'. random_randint R a b g = Inr (k, g')"
  by (simp add: random_randint_def split: prod.splits)

lemma random_choice_ok:
  assumes "valid_source R" and "xs \<noteq> []"
  shows "\<exists>x g'. random_choice R xs g = Inr (x, g') \<and> x \<in> set xs"
proof -
  obtain k g' where k: "gen_below R (length xs) g = (k, g')" by (cases "gen_below R (length xs) g")
  from assms have "fst (gen_below R (length xs) g) < length xs"
    by (simp add: valid_source_def)
  with k have lt: "k < length xs" by simp
  with k assms(2) have "random_choice R xs g = Inr (xs ! k, g')"
    by (simp add: random_choice_def)
  moreover from lt have "xs ! k \<in> set xs" by simp
  ultimately show ?thesis by (intro exI conjI)
qed

lemma random_id_ok:
  assumes "valid_source R"
  shows "\<exists>s g'. random_id R n g = Inr (s, g')"
proof (induction n arbitrary: g)
  case 0
  show ?case by simp
next
  case (Suc n)
  have "id_chars \<noteq> []" by (simp add: id_chars_def)
  from random_choice_ok[OF assms this, of g] obtain c g1 where
    c: "random_choice R id_chars g = Inr (c, g1)" by (elim exE conjE)
  from Suc.IH[of g1] obtain cs g2 where r: "random_id R n g1 = Inr (cs, g2)" by (elim exE)
  from c r show ?case by simp
qed

lemma random_zipcode_ok: "\<exists>z g'. random_zipcode R g = Inr (z, g')"
proof -
  from random_randint_ok[of 10000 99999 R g] obtain k g' where
    "random_randint R 10000 99999 g = Inr (k, g')" by auto
  then show ?thesis by (simp add: random_zipcode_def)
qed



lemma random_id_8: "random_id R 8 g = random_id R (Suc (Suc (Suc (Suc (Suc (Suc (Suc (Suc 0)))))))) g"
  by (simp add: eval_nat_numeral)

lemma counter_random: "gen_random counter_source g = (1 / 2, Suc g)"
  by (simp add: counter_source_def)

lemma counter_choice: "random_choice counter_source id_chars g = Inr (CHR ''a'', Suc g)"
  by (simp add: random_choice_def counter_source_def id_chars_def)

lemma counter_id: "random_id counter_source 8 g = Inr (''aaaaaaaa'', g + 8)"
  by (simp add: random_id_8 counter_choice)

lemma counter_randint: "a \<le> b \<Longrightarrow> random_randint counter_source a b g = Inr (a, Suc g)"
  by (simp add: random_randint_def counter_source_def)

lemma counter_zipcode: "random_zipcode counter_source g = Inr (''10000'', Suc g)"
  by (simp add: random_zipcode_def counter_randint str_int_def str_nat.simps)

lemma valid_counter_source: "valid_source counter_source"
  by (simp add: valid_source_def counter_source_def)

lemma publisher_one_slow_message:
  "publisher one_slow_message counter_source clock 0 =
     Inr ([first_message (clock 1)],
          [Sleep (1 / 100), SlowSend (first_message (clock 1)), Complete], 14)"
proof -
  have it: "publisher_iteration one_slow_message counter_source clock 1 (0, [], []) =
     Inr (14, [first_message (clock 1)],
          [Sleep (1 / 100), SlowSend (first_message (clock 1))])"
    by (simp add: publisher_iteration_def random_uniform_def one_slow_message_def
        counter_random counter_randint counter_id counter_zipcode first_message_def Let_def)
  have "[1..total_messages one_slow_message] = [1]" by (simp add: one_slow_message_def)
  then show ?thesis by (simp add: publisher_def it)
qed

lemma lone_slow_run_initial: "lone_slow_run d m (initial_state [Sleep d, SlowSend m, Complete])"
  by (simp add: lone_slow_run_def initial_state_def)

lemma lone_slow_run_main:
  assumes "lone_slow_run d m s"
  shows "lone_slow_run d m (main_step cfg s)"
proof (cases "main_at s")
  case InPublisher
  show ?thesis
  proof (cases "sub_returned s")
    case True
    have r: "sub_returned (run_publisher cfg es s') = sub_returned s'
         \<and> sub_records (run_publisher cfg es s') = sub_records s'" for es s'
      by (induction cfg es s' rule: run_publisher.induct)
        (auto simp: queue_join_def await_subscriber_def put_nowait_def)
    from assms True InPublisher r[of "todo s" s] show ?thesis
      by (simp add: lone_slow_run_def main_step_def)
  next
    case False
    with assms InPublisher have
      c: "todo s = [Sleep d, SlowSend m, Complete] \<or> todo s = [SlowSend m, Complete]"
      and q: "queue s = []" and dl: "delayed s = []" and r: "sub_records s = []"
      by (auto simp: lone_slow_run_def)
    from c show ?thesis
    proof
      assume "todo s = [Sleep d, SlowSend m, Complete]"
      with InPublisher False q dl r show ?thesis
        by (simp add: lone_slow_run_def main_step_def)
    next
      assume "todo s = [SlowSend m, Complete]"
      with InPublisher False q dl r show ?thesis
        by (simp add: lone_slow_run_def main_step_def full_def put_nowait_def queue_join_def)
    qed
  qed
next
  case InJoin
  with assms show ?thesis
    by (auto simp: lone_slow_run_def main_step_def await_subscriber_def)
next
  case AwaitSubscriber
  with assms show ?thesis
    by (auto simp: lone_slow_run_def main_step_def)
next
  case Analysed
  with assms show ?thesis by (simp add: main_step_def)
qed

lemma lone_slow_run_subscriber:
  assumes "lone_slow_run d m s"
  shows "lone_slow_run d m (subscriber aclock s)"
proof (cases "sub_returned s")
  case True
  with assms show ?thesis by (simp add: subscriber_def)
next
  case False
  with assms have c: "queue s = [] \<or> (\<exists>q. queue s = None # q)" and r: "sub_records s = []"
    by (auto simp: lone_slow_run_def)
  from c show ?thesis
  proof
    assume "queue s = []"
    with assms show ?thesis by (simp add: subscriber_def)
  next
    assume "\<exists>q. queue s = None # q"
    then obtain q where "queue s = None # q" by (elim exE)
    with False r show ?thesis
      by (simp add: subscriber_def lone_slow_run_def task_done_def)
  qed
qed

lemma lone_slow_run_delayed:
  assumes "lone_slow_run d m s"
  shows "lone_slow_run d m (delayed_send cfg i s)"
  using assms by (auto simp: delayed_send_def lone_slow_run_def put_nowait_def)

lemma lone_slow_run_resume:
  "lone_slow_run d m s \<Longrightarrow> lone_slow_run d m (resume cfg aclock s t)"
  by (cases t)
    (simp_all add: resume_def lone_slow_run_main lone_slow_run_subscriber lone_slow_run_delayed)

lemma lone_slow_run_foldl:
  "lone_slow_run d m s \<Longrightarrow> lone_slow_run d m (foldl (resume cfg aclock) s schedule)"
  by (induction schedule arbitrary: s) (simp_all add: lone_slow_run_resume)

lemma lone_slow_message_never_received:
  "sub_records (event_loop cfg aclock [Sleep d, SlowSend m, Complete] schedule) = []"
  using lone_slow_run_foldl[OF lone_slow_run_initial, of d m cfg aclock schedule]
  by (simp add: event_loop_def lone_slow_run_def)

lemma publisher_iteration_slow:
  assumes "valid_source R" and "1 \<le> partitions cfg"
    and "slow_prob cfg = 1" and "dup_prob cfg = 0"
  shows "\<exists>g' msg d.
           publisher_iteration cfg R clock seq (g, produced, effects)
             = Inr (g', produced @ [msg], effects @ [Sleep d, SlowSend msg])
           \<and> sequence_id msg = seq"
proof -
  obtain x g1 where u: "random_uniform R (base_delay cfg - jitter cfg)
      (base_delay cfg + jitter cfg) g = (x, g1)"
    by (cases "random_uniform R (base_delay cfg - jitter cfg) (base_delay cfg + jitter cfg) g")
  from assms(2) have "0 \<le> partitions cfg - 1" by simp
  from random_randint_ok[OF this, of R g1] obtain pid g2 where
    p: "random_randint R 0 (partitions cfg - 1) g1 = Inr (pid, g2)" by (elim exE)
  from random_id_ok[OF assms(1), of 8 g2] obtain mid g3 where
    i: "random_id R 8 g2 = Inr (mid, g3)" by (elim exE)
  from random_randint_ok[of 100 10000 R g3] obtain v g4 where
    v: "random_randint R 100 10000 g3 = Inr (v, g4)" by auto
  from random_zipcode_ok[of R g4] obtain z g5 where
    z: "random_zipcode R g4 = Inr (z, g5)" by (elim exE)
  define msg where "msg = \<lparr>message_id = mid, sequence_id = seq, partition_id = pid,
                 created_at = clock seq, msg_value = v, zipcode = z\<rparr>"
  obtain r1 g6 where r1: "gen_random R g5 = (r1, g6)" by (cases "gen_random R g5")
  obtain r2 g7 where r2: "gen_random R g6 = (r2, g7)" by (cases "gen_random R g6")
  from assms(1) have "fst (gen_random R g5) < 1" "0 \<le> fst (gen_random R g6)"
    by (simp_all add: valid_source_def)
  with r1 r2 assms(3,4) have s: "r1 < slow_prob cfg" and nd: "\<not> r2 < dup_prob cfg" by simp_all
  from u p i v z r1 r2 s nd have
    "publisher_iteration cfg R clock seq (g, produced, effects)
       = Inr (g7, produced @ [msg], effects @ [Sleep (max 0 x), SlowSend msg])"
    by (simp add: publisher_iteration_def Let_def msg_def)
  moreover have "sequence_id msg = seq" by (simp add: msg_def)
  ultimately show ?thesis by (intro exI conjI)
qed

lemma publisher_lone_slow:
  assumes "valid_source R" and "1 \<le> partitions cfg" and "total_messages cfg = 1"
    and "slow_prob cfg = 1" and "dup_prob cfg = 0"
  shows "\<exists>m d g'. publisher cfg R clock g = Inr ([m], [Sleep d, SlowSend m, Complete], g')
           \<and> sequence_id m = 1"
proof -
  from publisher_iteration_slow[OF assms(1,2,4,5), of clock 1 g "[]" "[]"]
  obtain g' m d where
    it: "publisher_iteration cfg R clock 1 (g, [], []) = Inr (g', [m], [Sleep d, SlowSend m])"
    and s: "sequence_id m = 1" by auto
  from assms(3) have "[1..total_messages cfg] = [1]" by simp
  with it have "publisher cfg R clock g = Inr ([m], [Sleep d, SlowSend m, Complete], g')"
    by (simp add: publisher_def)
  with s show ?thesis by (intro exI conjI)
qed

lemma lone_slow_loop_completes:
  "event_loop cfg aclock [Sleep d, SlowSend m, Complete]
      [MainTask, MainTask, SubscriberTask, MainTask] =
    \<lparr>main_at = Analysed, todo = [], delayed = [m], queue = [], unfinished_tasks = 0,
      sub_records = [], sub_arrival_index = 0, sub_returned = True\<rparr>"
  by (simp add: event_loop_def initial_state_def resume_def main_step_def
     full_def put_nowait_def task_done_def queue_join_def await_subscriber_def subscriber_def)

lemma missing_lone: "sequence_id m = 1 \<Longrightarrow> missing [m] [] = [1]"
  by (simp add: missing_def)

lemma publisher_sentinel_last:
  assumes "publisher cfg R clock g = Inr (produced, effects, g')"
  shows "\<exists>es. effects = es @ [Complete] \<and> publisher_loop cfg R clock [1..total_messages cfg] (g, [], []) = Inr (g', produced, es)"
  using assms by (auto simp: publisher_def split: sum.splits prod.splits)

lemma one_slow_message_fields:
  "1 \<le> partitions one_slow_message" "total_messages one_slow_message = 1"
  "slow_prob one_slow_message = 1" "dup_prob one_slow_message = 0"
  "0 \<le> total_messages one_slow_message"
  by (simp_all add: one_slow_message_def)

subsection \<open>The clock only reaches the timestamp fields\<close>

lemma random_choice_map:
  "random_choice R (map f xs) g =
     (case random_choice R xs g of Inl e \<Rightarrow> Inl e | Inr (x, g') \<Rightarrow> Inr (f x, g'))"
  by (simp add: random_choice_def split: prod.splits)

lemma untimed_message [simp]:
  "untimed \<lparr>message_id = a, sequence_id = b, partition_id = c, created_at = t, msg_value = v,
     zipcode = z\<rparr>
   = \<lparr>message_id = a, sequence_id = b, partition_id = c, created_at = 0, msg_value = v,
     zipcode = z\<rparr>"
  by (simp add: untimed_def)

lemma untimed_nth_snoc:
  assumes "k \<le> length produced"
  shows "untimed ((produced @ [\<lparr>message_id = a, sequence_id = b, partition_id = c,
             created_at = t, msg_value = v, zipcode = z\<rparr>]) ! k)
       = (map untimed produced @ [\<lparr>message_id = a, sequence_id = b, partition_id = c,
             created_at = 0, msg_value = v, zipcode = z\<rparr>]) ! k"
proof (cases "k < length produced")
  case True
  then show ?thesis by (simp add: nth_append)
next
  case False
  with assms have "k = length produced" by simp
  then show ?thesis by (simp add: nth_append)
qed

lemma publisher_iteration_untimed:
  "(case publisher_iteration cfg R clock seq st of
      Inl e \<Rightarrow> Inl e | Inr st' \<Rightarrow> Inr (untimed_publisher_state st'))
   = publisher_iteration cfg R (\<lambda>seq. 0) seq (untimed_publisher_state st)"
proof -
  obtain g produced effects where st: "st = (g, produced, effects)" by (cases st)
  show ?thesis
    unfolding st
    by (simp add: publisher_iteration_def untimed_publisher_state_def Let_def
        random_choice_def untimed_nth_snoc less_Suc_eq_le
        split: prod.splits sum.splits)
qed

lemma publisher_loop_untimed:
  "(case publisher_loop cfg R clock seqs st of
      Inl e \<Rightarrow> Inl e | Inr st' \<Rightarrow> Inr (untimed_publisher_state st'))
   = publisher_loop cfg R (\<lambda>seq. 0) seqs (untimed_publisher_state st)"
proof (induction seqs arbitrary: st)
  case Nil
  show ?case by simp
next
  case (Cons seq seqs)
  show ?case
  proof (cases "publisher_iteration cfg R clock seq st")
    case (Inl e)
    with publisher_iteration_untimed[of cfg R clock seq st]
    have "publisher_iteration cfg R (\<lambda>seq. 0) seq (untimed_publisher_state st) = Inl e" by simp
    with Inl show ?thesis by simp
  next
    case (Inr st1)
    with publisher_iteration_untimed[of cfg R clock seq st]
    have "publisher_iteration cfg R (\<lambda>seq. 0) seq (untimed_publisher_state st)
            = Inr (untimed_publisher_state st1)" by simp
    with Inr Cons.IH[of st1] show ?thesis by simp
  qed
qed

lemma publisher_untimed:
  "untimed_history (publisher cfg R clock g) = publisher cfg R (\<lambda>seq. 0) g"
proof -
  let ?seqs = "[1..total_messages cfg]"
  have u: "untimed_publisher_state (g, [], []) = (g, [], [])"
    by (simp add: untimed_publisher_state_def)
  show ?thesis
  proof (cases "publisher_loop cfg R clock ?seqs (g, [], [])")
    case (Inl e)
    with publisher_loop_untimed[of cfg R clock ?seqs "(g, [], [])"] u
    have "publisher_loop cfg R (\<lambda>seq. 0) ?seqs (g, [], []) = Inl e" by simp
    with Inl show ?thesis by (simp add: publisher_def untimed_history_def)
  next
    case (Inr st1)
    obtain g' produced effects where s1: "st1 = (g', produced, effects)" by (cases st1)
    from Inr publisher_loop_untimed[of cfg R clock ?seqs "(g, [], [])"] u
    have "publisher_loop cfg R (\<lambda>seq. 0) ?seqs (g, [], [])
            = Inr (untimed_publisher_state st1)" by simp
    with Inr s1 show ?thesis
      by (simp add: publisher_def untimed_history_def untimed_publisher_state_def)
  qed
qed

lemma untimed_state_fields [simp]:
  "main_at (untimed_state s) = main_at s"
  "todo (untimed_state s) = map untimed_effect (todo s)"
  "delayed (untimed_state s) = map untimed (delayed s)"
  "queue (untimed_state s) = map (map_option untimed) (queue s)"
  "unfinished_tasks (untimed_state s) = unfinished_tasks s"
  "sub_records (untimed_state s) = map untimed_record (sub_records s)"
  "sub_arrival_index (untimed_state s) = sub_arrival_index s"
  "sub_returned (untimed_state s) = sub_returned s"
  by (simp_all add: untimed_state_def)

lemma full_untimed [simp]: "full cfg (untimed_state s) = full cfg s"
  by (simp add: full_def)

lemma put_nowait_untimed:
  "untimed_state (put_nowait x s) = put_nowait (map_option untimed x) (untimed_state s)"
  by (simp add: put_nowait_def untimed_state_def)

lemma task_done_untimed: "untimed_state (task_done s) = task_done (untimed_state s)"
  by (simp add: task_done_def untimed_state_def)

lemma await_subscriber_untimed:
  "untimed_state (await_subscriber s) = await_subscriber (untimed_state s)"
  by (simp add: await_subscriber_def untimed_state_def)

lemma queue_join_untimed: "untimed_state (queue_join s) = queue_join (untimed_state s)"
  by (simp add: queue_join_def await_subscriber_untimed)

lemma untimed_state_todo:
  "untimed_state (s\<lparr>todo := es\<rparr>) = (untimed_state s)\<lparr>todo := map untimed_effect es\<rparr>"
  by (simp add: untimed_state_def)

lemma untimed_state_delayed:
  "untimed_state (s\<lparr>delayed := ms\<rparr>) = (untimed_state s)\<lparr>delayed := map untimed ms\<rparr>"
  by (simp add: untimed_state_def)

lemma run_publisher_untimed:
  "untimed_state (run_publisher cfg es s)
     = run_publisher cfg (map untimed_effect es) (untimed_state s)"
proof (induction cfg es s rule: run_publisher.induct)
  case (1 cfg s)
  show ?case by (simp add: queue_join_untimed untimed_state_todo)
next
  case (2 cfg d es s)
  show ?case by (simp add: untimed_state_todo)
next
  case (3 cfg m es s)
  then show ?case by (simp add: untimed_state_todo put_nowait_untimed)
next
  case (4 cfg m es s)
  then show ?case by (simp add: untimed_state_delayed)
next
  case (5 cfg m es s)
  then show ?case by (simp add: untimed_state_todo put_nowait_untimed)
next
  case (6 cfg es s)
  then show ?case by (simp add: untimed_state_todo put_nowait_untimed)
qed

lemma main_step_untimed:
  "untimed_state (main_step cfg s) = main_step cfg (untimed_state s)"
proof (cases "main_at s")
  case InPublisher
  then show ?thesis by (simp add: main_step_def run_publisher_untimed)
next
  case InJoin
  then show ?thesis by (simp add: main_step_def await_subscriber_untimed)
next
  case AwaitSubscriber
  then show ?thesis by (simp add: main_step_def)
next
  case Analysed
  then show ?thesis by (simp add: main_step_def)
qed

lemma delayed_send_untimed:
  "untimed_state (delayed_send cfg i s) = delayed_send cfg i (untimed_state s)"
proof (cases "i < length (delayed s) \<and> \<not> full cfg s")
  case True
  then show ?thesis
    by (simp add: delayed_send_def put_nowait_untimed untimed_state_delayed take_map drop_map)
next
  case False
  then show ?thesis by (auto simp: delayed_send_def)
qed

lemma subscriber_record_untimed:
  "untimed_record (subscriber_record item ts idx) = subscriber_record (untimed item) 0 idx"
  by (rule ext) (simp add: untimed_record_def subscriber_record_def untimed_def)

lemma subscriber_untimed:
  "untimed_state (subscriber aclock s) = subscriber (\<lambda>k. 0) (untimed_state s)"
proof (cases "sub_returned s")
  case True
  then show ?thesis by (simp add: subscriber_def)
next
  case False
  show ?thesis
  proof (cases "queue s")
    case Nil
    with False show ?thesis by (simp add: subscriber_def)
  next
    case (Cons x q)
    show ?thesis
    proof (cases x)
      case None
      with False Cons show ?thesis
        by (simp add: subscriber_def task_done_def untimed_state_def)
    next
      case (Some item)
      with False Cons show ?thesis
        by (simp add: subscriber_def task_done_def untimed_state_def Let_def
            subscriber_record_untimed)
    qed
  qed
qed

lemma resume_untimed:
  "untimed_state (resume cfg aclock s t) = resume cfg (\<lambda>k. 0) (untimed_state s) t"
  by (cases t)
    (simp_all add: resume_def main_step_untimed subscriber_untimed delayed_send_untimed)

lemma foldl_resume_untimed:
  "untimed_state (foldl (resume cfg aclock) s schedule)
     = foldl (resume cfg (\<lambda>k. 0)) (untimed_state s) schedule"
  by (induction schedule arbitrary: s) (simp_all add: resume_untimed)

lemma event_loop_untimed:
  "untimed_state (event_loop cfg aclock effects schedule)
     = event_loop cfg (\<lambda>k. 0) (map untimed_effect effects) schedule"
  by (simp add: event_loop_def foldl_resume_untimed) (simp add: initial_state_def untimed_state_def)

lemma simulation_untimed:
  "untimed_run (simulation cfg R clock aclock g schedule)
     = simulation cfg R (\<lambda>seq. 0) (\<lambda>k. 0) g schedule"
proof (cases "publisher cfg R clock g")
  case (Inl e)
  with publisher_untimed[of cfg R clock g] have "publisher cfg R (\<lambda>seq. 0) g = Inl e"
    by (simp add: untimed_history_def)
  with Inl show ?thesis by (simp add: simulation_def untimed_run_def)
next
  case (Inr res)
  obtain produced effects g' where r: "res = (produced, effects, g')" by (cases res)
  with Inr publisher_untimed[of cfg R clock g] have
    "publisher cfg R (\<lambda>seq. 0) g = Inr (map untimed produced, map untimed_effect effects, g')"
    by (simp add: untimed_history_def)
  with Inr r show ?thesis
    by (simp add: simulation_def untimed_run_def event_loop_untimed)
qed

section \<open>The composite hash is taken over the joined key string\<close>

text \<open>
  Claim C10. The records with the composite keys (a, 12, 3) and (a1, 2, 3) are different
  events, yet both key strings are \<^verbatim>\<open>a123\<close>: day04 formats the three fields into
  one f-string and day05 joins them with \<^verbatim>\<open>concat_str\<close>, neither with a
  separator. Their composite hashes are therefore equal whatever the digest is, and the
  Eager strategy of day04 and of day05, which keeps one record per hash, returns a single
  record for the batch of the two.
\<close>

theorem composite_hash_collision:
  assumes "row_order ord"
  shows "composite_key (received_record ''a'' 12 3 1 1 500)
           \<noteq> composite_key (received_record ''a1'' 2 3 2 2 700)
       \<and> compute_composite_hash E (received_record ''a'' 12 3 1 1 500)
           = compute_composite_hash E (received_record ''a1'' 2 3 2 2 700)
       \<and> composite_hash_cell E (received_record ''a'' 12 3 1 1 500)
           = composite_hash_cell E (received_record ''a1'' 2 3 2 2 700)
       \<and> length (rows colliding_batch) = 2
       \<and> (\<exists>out m. eager_dedup E ord colliding_batch = Inr (out, m) \<and> length (rows out) = 1)
       \<and> (\<exists>t out m. EagerDedupStrategy_process E ord None colliding_batch = (t, Inr (out, m))
              \<and> length (rows out) = 1)"
proof -
  let ?a = "received_record ''a'' 12 3 1 1 500"
  let ?b = "received_record ''a1'' 2 3 2 2 700"
  have k: "composite_key ?a \<noteq> composite_key ?b"
    by (simp add: composite_key_def received_record_def cell_def)
  have h4: "compute_composite_hash E ?a = compute_composite_hash E ?b"
    by (simp add: compute_composite_hash_def received_record_def cell_def py_format_def
        str_int_def str_nat.simps)
  have h5: "composite_hash_cell E ?a = composite_hash_cell E ?b"
    by (simp add: composite_hash_cell_def compute_composite_hash_d05_def received_record_def
        cell_def pl_utf8_def str_int_def str_nat.simps)
  have cols: "set key_columns \<subseteq> set (columns colliding_batch)"
    by (simp add: key_columns_def colliding_batch_def record_columns_def)
  have rws: "rows colliding_batch = [?a, ?b]"
    by (simp add: colliding_batch_def)
  have u4: "unique_first (\<lambda>r. cell r ''composite_hash'') {} (map (hashed E) (rows colliding_batch))
              = [hashed E ?a]"
    using h4 by (simp add: rws)
  have u5: "unique_first (\<lambda>r. cell r ''composite_hash'') {} (map (hashed_d05 E) (rows colliding_batch))
              = [hashed_d05 E ?a]"
    using h5 by (simp add: rws)
  from eager_dedup_ok[OF cols, of E ord] u4 row_order_length[OF assms]
  have e4: "\<exists>out m. eager_dedup E ord colliding_batch = Inr (out, m) \<and> length (rows out) = 1"
    by auto
  have e5: "\<exists>t out m. EagerDedupStrategy_process E ord None colliding_batch = (t, Inr (out, m))
              \<and> length (rows out) = 1"
    using u5 row_order_length[OF assms]
    by (simp add: EagerDedupStrategy_process_def add_composite_hash_column_ok[OF cols]
        pl_unique_def write_deltalake_def Let_def)
  from k h4 h5 rws e4 e5 show ?thesis by simp
qed

theorem composite_hash_collision_witness:
  "row_order (\<lambda>xs. xs)
   \<and> (composite_key (received_record ''a'' 12 3 1 1 500)
           \<noteq> composite_key (received_record ''a1'' 2 3 2 2 700)
       \<and> compute_composite_hash plain_externals (received_record ''a'' 12 3 1 1 500)
           = compute_composite_hash plain_externals (received_record ''a1'' 2 3 2 2 700)
       \<and> composite_hash_cell plain_externals (received_record ''a'' 12 3 1 1 500)
           = composite_hash_cell plain_externals (received_record ''a1'' 2 3 2 2 700)
       \<and> length (rows colliding_batch) = 2
       \<and> (\<exists>out m. eager_dedup plain_externals (\<lambda>xs. xs) colliding_batch = Inr (out, m)
              \<and> length (rows out) = 1)
       \<and> (\<exists>t out m. EagerDedupStrategy_process plain_externals (\<lambda>xs. xs) None colliding_batch
                = (t, Inr (out, m)) \<and> length (rows out) = 1))"
proof -
  have h: "row_order (\<lambda>xs. xs)" by (rule row_order_id)
  from h composite_hash_collision[OF h, of plain_externals] show ?thesis by (rule conjI)
qed

section \<open>Re-applying a strategy to its own output\<close>

text \<open>
  Claim C3. Eager applied to the output of Eager, and Merge applied to the output of
  Merge, return the same canonical record set: the same columns and the same records,
  each as often as before. The second run succeeds whenever the first did, and its rows
  are the rows it was given, in the order polars' \<^verbatim>\<open>unique\<close> (for Merge: the
  sort, then \<^verbatim>\<open>unique\<close>) leaves them. The two runs may differ in the row order
  and the sort polars chooses.
\<close>

theorem eager_and_merge_idempotent:
  assumes "row_order ord1" and "row_order ord2" and "sorts_by srt1" and "sorts_by srt2"
  shows "(eager_dedup E ord1 b = Inr (out, m) \<longrightarrow>
            (\<exists>out' m'. eager_dedup E ord2 out = Inr (out', m')
               \<and> columns out' = columns out
               \<and> rows out' = ord2 (rows out)
               \<and> mset (rows out') = mset (rows out)))
       \<and> (merge_dedup_polars E srt1 ord1 b = Inr (out, m) \<longrightarrow>
            (\<exists>out' m'. merge_dedup_polars E srt2 ord2 out = Inr (out', m')
               \<and> columns out' = columns out
               \<and> rows out' = ord2 (srt2 ''created_at'' (rows out))
               \<and> mset (rows out') = mset (rows out)))"
proof (intro conjI impI)
  let ?k = "\<lambda>r::row. cell r ''composite_hash''"
  assume a: "eager_dedup E ord1 b = Inr (out, m)"
  from eager_dedup_Inr[OF a] have cb: "set key_columns \<subseteq> set (columns b)"
    and o: "out = \<lparr>columns = add_column_name ''composite_hash'' (columns b),
                    rows = ord1 (unique_first ?k {} (map (hashed E) (rows b)))\<rparr>"
    by simp_all
  from cb o have co: "set key_columns \<subseteq> set (columns out)" by auto
  have "set (rows out) \<subseteq> set (map (hashed E) (rows b))"
    using unique_first_subset[of ?k "{}" "map (hashed E) (rows b)"]
    by (simp add: o row_order_set[OF assms(1)])
  then have "set (rows out) \<subseteq> hashed E ` set (rows b)" by simp
  then have h: "map (hashed E) (rows out) = rows out" by (rule map_hashed_id)
  have d: "distinct (map ?k (rows out))"
    by (simp add: o row_order_distinct[OF assms(1)] unique_first_distinct)
  then have u: "unique_first ?k {} (rows out) = rows out" by (simp add: unique_first_id)
  define out' where "out' = \<lparr>columns = add_column_name ''composite_hash'' (columns out),
      rows = ord2 (unique_first ?k {} (map (hashed E) (rows out)))\<rparr>"
  from eager_dedup_ok[OF co, of E ord2] obtain m' where
    e: "eager_dedup E ord2 out = Inr (out', m')" unfolding out'_def by (elim exE)
  have c: "columns out' = columns out" by (simp add: out'_def o)
  have r: "rows out' = ord2 (rows out)" by (simp add: out'_def h u)
  have ms: "mset (rows out') = mset (rows out)"
    using assms(2) by (simp add: r row_order_def)
  from e c r ms show "\<exists>out' m'. eager_dedup E ord2 out = Inr (out', m')
               \<and> columns out' = columns out
               \<and> rows out' = ord2 (rows out)
               \<and> mset (rows out') = mset (rows out)"
    by (intro exI conjI)
next
  let ?k = "\<lambda>r::row. cell r ''message_id''"
  assume a: "merge_dedup_polars E srt1 ord1 b = Inr (out, m)"
  from merge_dedup_polars_Inr[OF a] have cb: "set key_columns \<subseteq> set (columns b)"
    and cc: "''created_at'' \<in> set (columns b)"
    and o: "out = \<lparr>columns = add_column_name ''composite_hash'' (columns b),
                    rows = ord1 (unique_last ?k (srt1 ''created_at'' (map (hashed E) (rows b))))\<rparr>"
    by simp_all
  from cb o have co: "set key_columns \<subseteq> set (columns out)" by auto
  from cc o have cco: "''created_at'' \<in> set (columns out)" by auto
  have "set (rows out) \<subseteq> set (map (hashed E) (rows b))"
    using unique_last_subset[of ?k "srt1 ''created_at'' (map (hashed E) (rows b))"]
    by (simp add: o row_order_set[OF assms(1)] sorts_by_set[OF assms(3)])
  then have "set (rows out) \<subseteq> hashed E ` set (rows b)" by simp
  then have h: "map (hashed E) (rows out) = rows out" by (rule map_hashed_id)
  have d: "distinct (map ?k (rows out))"
    by (simp add: o row_order_distinct[OF assms(1)] unique_last_distinct)
  then have "distinct (map ?k (srt2 ''created_at'' (rows out)))"
    by (simp add: sorts_by_distinct[OF assms(4)])
  then have u: "unique_last ?k (srt2 ''created_at'' (rows out)) = srt2 ''created_at'' (rows out)"
    by (rule unique_last_id)
  define out' where "out' = \<lparr>columns = add_column_name ''composite_hash'' (columns out),
      rows = ord2 (unique_last ?k (srt2 ''created_at'' (map (hashed E) (rows out))))\<rparr>"
  from merge_dedup_polars_ok[OF co cco, of E srt2 ord2] obtain m' where
    e: "merge_dedup_polars E srt2 ord2 out = Inr (out', m')" unfolding out'_def by (elim exE)
  have c: "columns out' = columns out" by (simp add: out'_def o)
  have r: "rows out' = ord2 (srt2 ''created_at'' (rows out))" by (simp add: out'_def h u)
  have ms: "mset (rows out') = mset (rows out)"
    using assms(2,4) by (simp add: r row_order_def sorts_by_def)
  from e c r ms show "\<exists>out' m'. merge_dedup_polars E srt2 ord2 out = Inr (out', m')
               \<and> columns out' = columns out
               \<and> rows out' = ord2 (srt2 ''created_at'' (rows out))
               \<and> mset (rows out') = mset (rows out)"
    by (intro exI conjI)
qed

theorem eager_and_merge_idempotent_witness:
  "row_order (\<lambda>xs. xs) \<and> sorts_by stable_sort
   \<and> eager_dedup plain_externals (\<lambda>xs. xs) tied_batch =
       Inr (\<lparr>columns = record_columns @ [''composite_hash''],
             rows = [(received_record ''abc'' 1 0 1 1 500)(''composite_hash'' \<mapsto> VStr ''abc10'')]\<rparr>,
            [(''strategy'', VStr ''eager_dedup''), (''initial_records'', VInt 2),
             (''final_records'', VInt 1), (''dropped_duplicates'', VInt 1)])
   \<and> (\<exists>out' m'. eager_dedup plain_externals (\<lambda>xs. xs)
                    \<lparr>columns = record_columns @ [''composite_hash''],
                     rows = [(received_record ''abc'' 1 0 1 1 500)(''composite_hash'' \<mapsto> VStr ''abc10'')]\<rparr>
                  = Inr (out', m')
          \<and> mset (rows out') =
              mset [(received_record ''abc'' 1 0 1 1 500)(''composite_hash'' \<mapsto> VStr ''abc10'')])
   \<and> merge_dedup_polars plain_externals stable_sort (\<lambda>xs. xs) tied_batch =
       Inr (\<lparr>columns = record_columns @ [''composite_hash''],
             rows = [(received_record ''abc'' 1 0 1 2 700)(''composite_hash'' \<mapsto> VStr ''abc10'')]\<rparr>,
            [(''strategy'', VStr ''merge_dedup_polars''), (''initial_records'', VInt 2),
             (''final_records'', VInt 1), (''merged_duplicates'', VInt 1),
             (''dedup_method'', VStr ''last-write-wins by message_id'')])
   \<and> (\<exists>out' m'. merge_dedup_polars plain_externals stable_sort (\<lambda>xs. xs)
                    \<lparr>columns = record_columns @ [''composite_hash''],
                     rows = [(received_record ''abc'' 1 0 1 2 700)(''composite_hash'' \<mapsto> VStr ''abc10'')]\<rparr>
                  = Inr (out', m')
          \<and> mset (rows out') =
              mset [(received_record ''abc'' 1 0 1 2 700)(''composite_hash'' \<mapsto> VStr ''abc10'')])"
proof -
  have h1: "row_order (\<lambda>xs. xs)" by (rule row_order_id)
  have h2: "sorts_by stable_sort" by (rule sorts_by_stable_sort)
  note i = eager_and_merge_idempotent[OF h1 h1 h2 h2, of plain_externals tied_batch]
  let ?oe = "\<lparr>columns = record_columns @ [''composite_hash''],
                rows = [(received_record ''abc'' 1 0 1 1 500)(''composite_hash'' \<mapsto> VStr ''abc10'')]\<rparr>"
  let ?om = "\<lparr>columns = record_columns @ [''composite_hash''],
                rows = [(received_record ''abc'' 1 0 1 2 700)(''composite_hash'' \<mapsto> VStr ''abc10'')]\<rparr>"
  from i[THEN conjunct1, rule_format, OF eager_on_tied_batch]
  obtain oe' me' where
    e1: "eager_dedup plain_externals (\<lambda>xs. xs) ?oe = Inr (oe', me')"
    and e2: "mset (rows oe') = mset (rows ?oe)"
    by (elim exE conjE)
  from e2 have e3: "mset (rows oe') =
      mset [(received_record ''abc'' 1 0 1 1 500)(''composite_hash'' \<mapsto> VStr ''abc10'')]"
    by simp
  from e1 e3 have e: "\<exists>out' m'. eager_dedup plain_externals (\<lambda>xs. xs) ?oe = Inr (out', m')
          \<and> mset (rows out') =
              mset [(received_record ''abc'' 1 0 1 1 500)(''composite_hash'' \<mapsto> VStr ''abc10'')]"
    by (intro exI conjI)
  from i[THEN conjunct2, rule_format, OF merge_on_tied_batch_stable]
  obtain om' mm' where
    m1: "merge_dedup_polars plain_externals stable_sort (\<lambda>xs. xs) ?om = Inr (om', mm')"
    and m2: "mset (rows om') = mset (rows ?om)"
    by (elim exE conjE)
  from m2 have m3: "mset (rows om') =
      mset [(received_record ''abc'' 1 0 1 2 700)(''composite_hash'' \<mapsto> VStr ''abc10'')]"
    by simp
  from m1 m3 have m: "\<exists>out' m'. merge_dedup_polars plain_externals stable_sort (\<lambda>xs. xs) ?om
                  = Inr (out', m')
          \<and> mset (rows out') =
              mset [(received_record ''abc'' 1 0 1 2 700)(''composite_hash'' \<mapsto> VStr ''abc10'')]"
    by (intro exI conjI)
  from h1 h2 eager_on_tied_batch e merge_on_tied_batch_stable m show ?thesis by (intro conjI)
qed

section \<open>Merge: last write wins per message id\<close>

text \<open>
  Claim C4, as amended. For every batch that holds the key columns and
  \<^verbatim>\<open>created_at\<close>, Merge (day04's \<^verbatim>\<open>merge_dedup_polars\<close>, and day05's
  \<^verbatim>\<open>PolarsMergeStrategy.process\<close> under its default configuration) returns
  exactly the records that stand last for their message id after the sort by
  \<^verbatim>\<open>created_at\<close>: one record for every message id of the batch, each a record of
  the batch with its hash attached, and none of the batch's records with that message id
  has a later \<^verbatim>\<open>created_at\<close>. Which of several records with the same message id
  and the same \<^verbatim>\<open>created_at\<close> is kept is left to the sort.
\<close>

theorem merge_keeps_latest_per_message_id:
  assumes "sorts_by srt" and "row_order ord"
    and "set key_columns \<subseteq> set (columns df)" and "''created_at'' \<in> set (columns df)"
  shows "(\<exists>out m. merge_dedup_polars E srt ord df = Inr (out, m)
          \<and> mset (rows out) =
              mset (unique_last (\<lambda>r. cell r ''message_id'')
                     (srt ''created_at'' (map (hashed E) (rows df))))
          \<and> length (rows out) \<le> length (rows df)
          \<and> distinct (map (\<lambda>r. cell r ''message_id'') (rows out))
          \<and> (\<lambda>r. cell r ''message_id'') ` set (rows out)
               = (\<lambda>r. cell r ''message_id'') ` set (rows df)
          \<and> (\<forall>r' \<in> set (rows out). \<exists>r \<in> set (rows df). r' = hashed E r
                \<and> (\<forall>q \<in> set (rows df). cell q ''message_id'' = cell r ''message_id''
                      \<longrightarrow> sort_rank (cell q ''created_at'') \<le> sort_rank (cell r ''created_at''))))
       \<and> (\<exists>out m. PolarsMergeStrategy_process E srt ord default_merge_config None df
                     = (Some out, Inr (out, m))
          \<and> mset (rows out) =
              mset (unique_last (\<lambda>r. cell r ''message_id'')
                     (srt ''created_at'' (map (hashed_d05 E) (rows df))))
          \<and> length (rows out) \<le> length (rows df)
          \<and> distinct (map (\<lambda>r. cell r ''message_id'') (rows out))
          \<and> (\<lambda>r. cell r ''message_id'') ` set (rows out)
               = (\<lambda>r. cell r ''message_id'') ` set (rows df)
          \<and> (\<forall>r' \<in> set (rows out). \<exists>r \<in> set (rows df). r' = hashed_d05 E r
                \<and> (\<forall>q \<in> set (rows df). cell q ''message_id'' = cell r ''message_id''
                      \<longrightarrow> sort_rank (cell q ''created_at'') \<le> sort_rank (cell r ''created_at''))))"
proof (rule conjI)
  define out where "out = \<lparr>columns = add_column_name ''composite_hash'' (columns df),
      rows = ord (unique_last (\<lambda>r. cell r ''message_id'')
                (srt ''created_at'' (map (hashed E) (rows df))))\<rparr>"
  from merge_dedup_polars_ok[OF assms(3,4), of E srt ord] obtain m where
    e: "merge_dedup_polars E srt ord df = Inr (out, m)" unfolding out_def by (elim exE)
  have r: "rows out = ord (unique_last (\<lambda>r. cell r ''message_id'')
                (srt ''created_at'' (map (hashed E) (rows df))))" by (simp add: out_def)
  from last_write_wins[OF assms(1,2), of "hashed E" "''message_id''" "''created_at''" "rows df"]
  have p: "mset (rows out) =
              mset (unique_last (\<lambda>r. cell r ''message_id'')
                     (srt ''created_at'' (map (hashed E) (rows df))))
          \<and> length (rows out) \<le> length (rows df)
          \<and> distinct (map (\<lambda>r. cell r ''message_id'') (rows out))
          \<and> (\<lambda>r. cell r ''message_id'') ` set (rows out)
               = (\<lambda>r. cell r ''message_id'') ` set (rows df)
          \<and> (\<forall>r' \<in> set (rows out). \<exists>r \<in> set (rows df). r' = hashed E r
                \<and> (\<forall>q \<in> set (rows df). cell q ''message_id'' = cell r ''message_id''
                      \<longrightarrow> sort_rank (cell q ''created_at'') \<le> sort_rank (cell r ''created_at'')))"
    unfolding r by (simp add: cell_hashed_other)
  from conjI[OF e p] show "\<exists>out m. merge_dedup_polars E srt ord df = Inr (out, m)
          \<and> mset (rows out) =
              mset (unique_last (\<lambda>r. cell r ''message_id'')
                     (srt ''created_at'' (map (hashed E) (rows df))))
          \<and> length (rows out) \<le> length (rows df)
          \<and> distinct (map (\<lambda>r. cell r ''message_id'') (rows out))
          \<and> (\<lambda>r. cell r ''message_id'') ` set (rows out)
               = (\<lambda>r. cell r ''message_id'') ` set (rows df)
          \<and> (\<forall>r' \<in> set (rows out). \<exists>r \<in> set (rows df). r' = hashed E r
                \<and> (\<forall>q \<in> set (rows df). cell q ''message_id'' = cell r ''message_id''
                      \<longrightarrow> sort_rank (cell q ''created_at'') \<le> sort_rank (cell r ''created_at'')))"
    by (intro exI)
next
  define out where "out = \<lparr>columns = add_column_name ''composite_hash'' (columns df),
      rows = ord (unique_last (\<lambda>r. cell r ''message_id'')
                (srt ''created_at'' (map (hashed_d05 E) (rows df))))\<rparr>"
  from PolarsMergeStrategy_process_ok[OF assms(3,4), of E srt ord] obtain m where
    e: "PolarsMergeStrategy_process E srt ord default_merge_config None df
          = (Some out, Inr (out, m))" unfolding out_def by (elim exE)
  have r: "rows out = ord (unique_last (\<lambda>r. cell r ''message_id'')
                (srt ''created_at'' (map (hashed_d05 E) (rows df))))" by (simp add: out_def)
  from last_write_wins[OF assms(1,2), of "hashed_d05 E" "''message_id''" "''created_at''" "rows df"]
  have p: "mset (rows out) =
              mset (unique_last (\<lambda>r. cell r ''message_id'')
                     (srt ''created_at'' (map (hashed_d05 E) (rows df))))
          \<and> length (rows out) \<le> length (rows df)
          \<and> distinct (map (\<lambda>r. cell r ''message_id'') (rows out))
          \<and> (\<lambda>r. cell r ''message_id'') ` set (rows out)
               = (\<lambda>r. cell r ''message_id'') ` set (rows df)
          \<and> (\<forall>r' \<in> set (rows out). \<exists>r \<in> set (rows df). r' = hashed_d05 E r
                \<and> (\<forall>q \<in> set (rows df). cell q ''message_id'' = cell r ''message_id''
                      \<longrightarrow> sort_rank (cell q ''created_at'') \<le> sort_rank (cell r ''created_at'')))"
    unfolding r by (simp add: cell_hashed_d05_other)
  from conjI[OF e p] show "\<exists>out m. PolarsMergeStrategy_process E srt ord default_merge_config None df
                     = (Some out, Inr (out, m))
          \<and> mset (rows out) =
              mset (unique_last (\<lambda>r. cell r ''message_id'')
                     (srt ''created_at'' (map (hashed_d05 E) (rows df))))
          \<and> length (rows out) \<le> length (rows df)
          \<and> distinct (map (\<lambda>r. cell r ''message_id'') (rows out))
          \<and> (\<lambda>r. cell r ''message_id'') ` set (rows out)
               = (\<lambda>r. cell r ''message_id'') ` set (rows df)
          \<and> (\<forall>r' \<in> set (rows out). \<exists>r \<in> set (rows df). r' = hashed_d05 E r
                \<and> (\<forall>q \<in> set (rows df). cell q ''message_id'' = cell r ''message_id''
                      \<longrightarrow> sort_rank (cell q ''created_at'') \<le> sort_rank (cell r ''created_at'')))"
    by (intro exI)
qed

theorem merge_keeps_latest_per_message_id_witness:
  "sorts_by stable_sort \<and> row_order (\<lambda>xs. xs)
   \<and> set key_columns \<subseteq> set (columns tied_batch) \<and> ''created_at'' \<in> set (columns tied_batch)
   \<and> (\<exists>out m. merge_dedup_polars plain_externals stable_sort (\<lambda>xs. xs) tied_batch = Inr (out, m)
          \<and> length (rows out) \<le> length (rows tied_batch)
          \<and> distinct (map (\<lambda>r. cell r ''message_id'') (rows out)))"
proof -
  have h1: "sorts_by stable_sort" by (rule sorts_by_stable_sort)
  have h2: "row_order (\<lambda>xs. xs)" by (rule row_order_id)
  have h3: "set key_columns \<subseteq> set (columns tied_batch)"
    using key_columns_record_columns by (simp add: tied_batch_def)
  have h4: "''created_at'' \<in> set (columns tied_batch)"
    using created_at_record_columns by (simp add: tied_batch_def)
  from merge_keeps_latest_per_message_id[OF h1 h2 h3 h4, of plain_externals]
  have "\<exists>out m. merge_dedup_polars plain_externals stable_sort (\<lambda>xs. xs) tied_batch = Inr (out, m)
          \<and> length (rows out) \<le> length (rows tied_batch)
          \<and> distinct (map (\<lambda>r. cell r ''message_id'') (rows out))"
    by (elim conjE exE) (intro exI conjI)
  with h1 h2 h3 h4 show ?thesis by (intro conjI)
qed

text \<open>
  The claim as stated fails: the source sorts without \<^verbatim>\<open>maintain_order\<close>, and
  under a sort that leaves equal rows in reverse order the record that came first in the
  batch (arrival index 1) is the one kept.
\<close>

theorem merge_tie_break_counterexample:
  "sorts_by ties_reversed_sort \<and> row_order (\<lambda>xs. xs)
   \<and> rows tied_batch
       = [received_record ''abc'' 1 0 1 1 500, received_record ''abc'' 1 0 1 2 700]
   \<and> merge_dedup_polars plain_externals ties_reversed_sort (\<lambda>xs. xs) tied_batch =
       Inr (\<lparr>columns = record_columns @ [''composite_hash''],
             rows = [(received_record ''abc'' 1 0 1 1 500)(''composite_hash'' \<mapsto> VStr ''abc10'')]\<rparr>,
            [(''strategy'', VStr ''merge_dedup_polars''), (''initial_records'', VInt 2),
             (''final_records'', VInt 1), (''merged_duplicates'', VInt 1),
             (''dedup_method'', VStr ''last-write-wins by message_id'')])"
proof -
  have r: "rows tied_batch
       = [received_record ''abc'' 1 0 1 1 500, received_record ''abc'' 1 0 1 2 700]"
    by (simp add: tied_batch_def)
  from sorts_by_ties_reversed_sort row_order_id r merge_on_tied_batch_reversed
  show ?thesis by (intro conjI)
qed

section \<open>Eager: the first record per composite hash\<close>




section \<open>Bronze keeps every record\<close>

text \<open>
  Claim C6. For every batch that holds the key columns and a \<^verbatim>\<open>created_at\<close> that
  polars can read as seconds, Bronze (day04's \<^verbatim>\<open>add_hashes\<close> and day05's
  \<^verbatim>\<open>BronzeAppendStrategy.process\<close>) returns as many records as it was given, the
  i-th of them being the i-th input record with every cell of its own unchanged and with
  the composite hash and the payload hash of that input record attached. Run a second
  time on the same batch, day05's Bronze returns the same frame and the same metrics (so
  every hash value is what it was), and the table, which the first run left holding the
  batch once, holds it twice: the record count has doubled.
\<close>

theorem bronze_keeps_every_record:
  assumes "set key_columns \<subseteq> set (columns df)" and "''created_at'' \<in> set (columns df)"
    and "\<forall>r \<in> set (rows df). epoch_seconds E (cell r ''created_at'') \<noteq> None"
  shows "(\<exists>out m. add_hashes E df = Inr (out, m)
           \<and> length (rows out) = length (rows df)
           \<and> (\<forall>i < length (rows df).
                 cell (rows out ! i) ''composite_hash''
                   = VStr (compute_composite_hash E (rows df ! i))
               \<and> cell (rows out ! i) ''payload_hash''
                   = VStr (compute_payload_hash E (columns df) (rows df ! i))
               \<and> (\<forall>c. c \<notin> {''composite_hash'', ''payload_hash'', ''partition_date''}
                      \<longrightarrow> cell (rows out ! i) c = cell (rows df ! i) c)))
       \<and> (\<exists>out m. BronzeAppendStrategy_process E None df = (Some out, Inr (out, m))
           \<and> length (rows out) = length (rows df)
           \<and> (\<forall>i < length (rows df).
                 cell (rows out ! i) ''composite_hash'' = composite_hash_cell E (rows df ! i)
               \<and> cell (rows out ! i) ''payload_hash''
                   = VStr (compute_payload_hash_d05 E
                            (map (\<lambda>c. (c, cell (hashed_d05 E (rows df ! i)) c)) (columns df)))
               \<and> (\<forall>c. c \<notin> {''composite_hash'', ''payload_hash'', ''partition_date''}
                      \<longrightarrow> cell (rows out ! i) c = cell (rows df ! i) c))
           \<and> BronzeAppendStrategy_process E (Some out) df
                = (Some (out\<lparr>rows := rows out @ rows out\<rparr>), Inr (out, m))
           \<and> length (rows out @ rows out) = 2 * length (rows df))"
proof (rule conjI)
  define out where "out = \<lparr>columns = bronze_columns (columns df),
                rows = map (bronze_row E (columns df)) (rows df)\<rparr>"
  from add_hashes_ok[OF assms] obtain m where
    e: "add_hashes E df = Inr (out, m)" unfolding out_def by (elim exE)
  have l: "length (rows out) = length (rows df)" by (simp add: out_def)
  have p: "\<forall>i < length (rows df).
                 cell (rows out ! i) ''composite_hash''
                   = VStr (compute_composite_hash E (rows df ! i))
               \<and> cell (rows out ! i) ''payload_hash''
                   = VStr (compute_payload_hash E (columns df) (rows df ! i))
               \<and> (\<forall>c. c \<notin> {''composite_hash'', ''payload_hash'', ''partition_date''}
                      \<longrightarrow> cell (rows out ! i) c = cell (rows df ! i) c)"
    by (simp add: out_def bronze_row_cells)
  from e l p show "\<exists>out m. add_hashes E df = Inr (out, m)
           \<and> length (rows out) = length (rows df)
           \<and> (\<forall>i < length (rows df).
                 cell (rows out ! i) ''composite_hash''
                   = VStr (compute_composite_hash E (rows df ! i))
               \<and> cell (rows out ! i) ''payload_hash''
                   = VStr (compute_payload_hash E (columns df) (rows df ! i))
               \<and> (\<forall>c. c \<notin> {''composite_hash'', ''payload_hash'', ''partition_date''}
                      \<longrightarrow> cell (rows out ! i) c = cell (rows df ! i) c))"
    by (intro exI conjI)
next
  define out where "out = \<lparr>columns = bronze_columns (columns df),
                rows = map (bronze_row_d05 E (columns df)) (rows df)\<rparr>"
  from Bronze_process_ok[OF assms out_def] obtain m where
    e1: "BronzeAppendStrategy_process E None df = (Some out, Inr (out, m))"
    and e2: "BronzeAppendStrategy_process E (Some out) df
               = (Some (out\<lparr>rows := rows out @ rows out\<rparr>), Inr (out, m))"
    by (elim exE conjE)
  have l: "length (rows out) = length (rows df)" by (simp add: out_def)
  have l2: "length (rows out @ rows out) = 2 * length (rows df)" by (simp add: out_def)
  have p: "\<forall>i < length (rows df).
                 cell (rows out ! i) ''composite_hash'' = composite_hash_cell E (rows df ! i)
               \<and> cell (rows out ! i) ''payload_hash''
                   = VStr (compute_payload_hash_d05 E
                            (map (\<lambda>c. (c, cell (hashed_d05 E (rows df ! i)) c)) (columns df)))
               \<and> (\<forall>c. c \<notin> {''composite_hash'', ''payload_hash'', ''partition_date''}
                      \<longrightarrow> cell (rows out ! i) c = cell (rows df ! i) c)"
    by (simp add: out_def bronze_row_d05_cells)
  from e1 l p e2 l2 show "\<exists>out m. BronzeAppendStrategy_process E None df = (Some out, Inr (out, m))
           \<and> length (rows out) = length (rows df)
           \<and> (\<forall>i < length (rows df).
                 cell (rows out ! i) ''composite_hash'' = composite_hash_cell E (rows df ! i)
               \<and> cell (rows out ! i) ''payload_hash''
                   = VStr (compute_payload_hash_d05 E
                            (map (\<lambda>c. (c, cell (hashed_d05 E (rows df ! i)) c)) (columns df)))
               \<and> (\<forall>c. c \<notin> {''composite_hash'', ''payload_hash'', ''partition_date''}
                      \<longrightarrow> cell (rows out ! i) c = cell (rows df ! i) c))
           \<and> BronzeAppendStrategy_process E (Some out) df
                = (Some (out\<lparr>rows := rows out @ rows out\<rparr>), Inr (out, m))
           \<and> length (rows out @ rows out) = 2 * length (rows df)"
    by (intro exI conjI)
qed

theorem bronze_keeps_every_record_witness:
  "set key_columns \<subseteq> set (columns two_record_batch)
   \<and> ''created_at'' \<in> set (columns two_record_batch)
   \<and> list_all (\<lambda>r. epoch_seconds plain_externals (cell r ''created_at'') \<noteq> None)
        (rows two_record_batch)
   \<and> (\<exists>out m. add_hashes plain_externals two_record_batch = Inr (out, m)
           \<and> length (rows out) = length (rows two_record_batch))
   \<and> (\<exists>out m. BronzeAppendStrategy_process plain_externals None two_record_batch
                  = (Some out, Inr (out, m))
           \<and> BronzeAppendStrategy_process plain_externals (Some out) two_record_batch
                = (Some (out\<lparr>rows := rows out @ rows out\<rparr>), Inr (out, m))
           \<and> length (rows out @ rows out) = 2 * length (rows two_record_batch))"
proof -
  have h1: "set key_columns \<subseteq> set (columns two_record_batch)"
    using key_columns_record_columns by (simp add: two_record_batch_def)
  have h2: "''created_at'' \<in> set (columns two_record_batch)"
    using created_at_record_columns by (simp add: two_record_batch_def)
  have h3: "\<forall>r \<in> set (rows two_record_batch).
              epoch_seconds plain_externals (cell r ''created_at'') \<noteq> None"
    by (rule two_record_batch_epoch)
  then have h3': "list_all (\<lambda>r. epoch_seconds plain_externals (cell r ''created_at'') \<noteq> None)
        (rows two_record_batch)" by (simp add: list_all_iff)
  note b = bronze_keeps_every_record[OF h1 h2 h3]
  from b[THEN conjunct1] have a: "\<exists>out m. add_hashes plain_externals two_record_batch = Inr (out, m)
           \<and> length (rows out) = length (rows two_record_batch)"
    by (elim exE conjE) (intro exI conjI)
  from b[THEN conjunct2] have c:
    "\<exists>out m. BronzeAppendStrategy_process plain_externals None two_record_batch
                  = (Some out, Inr (out, m))
           \<and> BronzeAppendStrategy_process plain_externals (Some out) two_record_batch
                = (Some (out\<lparr>rows := rows out @ rows out\<rparr>), Inr (out, m))
           \<and> length (rows out @ rows out) = 2 * length (rows two_record_batch)"
    by (elim exE conjE) (intro exI conjI)
  from h1 h2 h3' a c show ?thesis by (intro conjI)
qed

section \<open>A missing key field stops a strategy\<close>

text \<open>
  Claim C9. When one of \<^verbatim>\<open>message_id\<close>, \<^verbatim>\<open>sequence_id\<close>,
  \<^verbatim>\<open>partition_id\<close> is not a column of the batch, Eager, Bronze and Merge (day04 and
  day05) raise \<^verbatim>\<open>ColumnNotFoundError\<close> naming a column the batch lacks; when
  \<^verbatim>\<open>created_at\<close> is not a column, Bronze and Merge do. The result is the error and
  nothing else: no frame is returned, no cell is made up for the missing field, and the
  table of a day05 strategy is the table it was given.
\<close>

theorem strategies_fail_fast_on_missing_field:
  assumes "c \<in> set (key_columns @ [''created_at''])" and "c \<notin> set (columns df)"
  shows "(c \<noteq> ''created_at'' \<longrightarrow>
            (\<exists>c'. c' \<notin> set (columns df)
               \<and> eager_dedup E ord df = Inl (ColumnNotFoundError c')))
       \<and> (\<exists>c'. c' \<notin> set (columns df) \<and> add_hashes E df = Inl (ColumnNotFoundError c'))
       \<and> (\<exists>c'. c' \<notin> set (columns df)
               \<and> merge_dedup_polars E srt ord df = Inl (ColumnNotFoundError c'))
       \<and> (c \<noteq> ''created_at'' \<longrightarrow>
            (\<exists>c'. c' \<notin> set (columns df)
               \<and> EagerDedupStrategy_process E ord table df
                    = (table, Inl (ColumnNotFoundError c'))))
       \<and> (\<exists>c'. c' \<notin> set (columns df)
               \<and> BronzeAppendStrategy_process E table df
                    = (table, Inl (ColumnNotFoundError c')))
       \<and> (\<exists>c'. c' \<notin> set (columns df)
               \<and> PolarsMergeStrategy_process E srt ord default_merge_config table df
                    = (table, Inl (ColumnNotFoundError c')))"
proof -
  from assms have all: "\<not> (set key_columns \<subseteq> set (columns df) \<and> ''created_at'' \<in> set (columns df))"
    by auto
  have keys: "\<not> set key_columns \<subseteq> set (columns df)" if "c \<noteq> ''created_at''"
    using assms that by auto
  have p1: "c \<noteq> ''created_at'' \<longrightarrow>
            (\<exists>c'. c' \<notin> set (columns df)
               \<and> eager_dedup E ord df = Inl (ColumnNotFoundError c'))"
  proof
    assume "c \<noteq> ''created_at''"
    from eager_dedup_fail[OF keys[OF this], of E ord]
    show "\<exists>c'. c' \<notin> set (columns df) \<and> eager_dedup E ord df = Inl (ColumnNotFoundError c')"
      by (elim exE conjE) (intro exI conjI)
  qed
  from add_hashes_fail[OF all, of E]
  have p2: "\<exists>c'. c' \<notin> set (columns df) \<and> add_hashes E df = Inl (ColumnNotFoundError c')"
    by (elim exE conjE) (intro exI conjI)
  from merge_dedup_polars_fail[OF all, of E srt ord]
  have p3: "\<exists>c'. c' \<notin> set (columns df)
               \<and> merge_dedup_polars E srt ord df = Inl (ColumnNotFoundError c')"
    by (elim exE conjE) (intro exI conjI)
  have p4: "c \<noteq> ''created_at'' \<longrightarrow>
            (\<exists>c'. c' \<notin> set (columns df)
               \<and> EagerDedupStrategy_process E ord table df
                    = (table, Inl (ColumnNotFoundError c')))"
  proof
    assume "c \<noteq> ''created_at''"
    from Eager_process_fail[OF keys[OF this], of E ord table]
    show "\<exists>c'. c' \<notin> set (columns df)
               \<and> EagerDedupStrategy_process E ord table df
                    = (table, Inl (ColumnNotFoundError c'))"
      by (elim exE conjE) (intro exI conjI)
  qed
  from Bronze_process_fail[OF all, of E table]
  have p5: "\<exists>c'. c' \<notin> set (columns df)
               \<and> BronzeAppendStrategy_process E table df
                    = (table, Inl (ColumnNotFoundError c'))"
    by (elim exE conjE) (intro exI conjI)
  from Merge_process_fail[OF all, of E srt ord table]
  have p6: "\<exists>c'. c' \<notin> set (columns df)
               \<and> PolarsMergeStrategy_process E srt ord default_merge_config table df
                    = (table, Inl (ColumnNotFoundError c'))"
    by (elim exE conjE) (intro exI conjI)
  from p1 p2 p3 p4 p5 p6 show ?thesis by (intro conjI)
qed

theorem strategies_fail_fast_on_missing_field_witness:
  "''sequence_id'' \<in> set (key_columns @ [''created_at''])
   \<and> ''sequence_id'' \<notin> set (columns batch_without_sequence_id)
   \<and> ''sequence_id'' \<noteq> ''created_at''
   \<and> eager_dedup plain_externals (\<lambda>xs. xs) batch_without_sequence_id
        = Inl (ColumnNotFoundError ''sequence_id'')
   \<and> (\<exists>c'. c' \<notin> set (columns batch_without_sequence_id)
         \<and> add_hashes plain_externals batch_without_sequence_id = Inl (ColumnNotFoundError c'))
   \<and> (\<exists>c'. c' \<notin> set (columns batch_without_sequence_id)
         \<and> merge_dedup_polars plain_externals stable_sort (\<lambda>xs. xs) batch_without_sequence_id
              = Inl (ColumnNotFoundError c'))
   \<and> (\<exists>c'. c' \<notin> set (columns batch_without_sequence_id)
         \<and> BronzeAppendStrategy_process plain_externals (Some two_record_batch)
              batch_without_sequence_id
              = (Some two_record_batch, Inl (ColumnNotFoundError c')))
   \<and> (\<exists>c'. c' \<notin> set (columns batch_without_sequence_id)
         \<and> PolarsMergeStrategy_process plain_externals stable_sort (\<lambda>xs. xs)
              default_merge_config (Some two_record_batch) batch_without_sequence_id
              = (Some two_record_batch, Inl (ColumnNotFoundError c')))"
proof -
  have h1: "''sequence_id'' \<in> set (key_columns @ [''created_at''])"
    by (simp add: key_columns_def)
  have h2: "''sequence_id'' \<notin> set (columns batch_without_sequence_id)"
    by (simp add: batch_without_sequence_id_def)
  have h3: "''sequence_id'' \<noteq> ''created_at''" by simp
  have e: "eager_dedup plain_externals (\<lambda>xs. xs) batch_without_sequence_id
        = Inl (ColumnNotFoundError ''sequence_id'')"
    by (simp add: eager_dedup_def with_composite_hash_def missing_columns_def
        batch_without_sequence_id_def)
  note s = strategies_fail_fast_on_missing_field[OF h1 h2, of plain_externals "\<lambda>xs. xs"
      stable_sort "Some two_record_batch"]
  from s have s2: "\<exists>c'. c' \<notin> set (columns batch_without_sequence_id)
         \<and> add_hashes plain_externals batch_without_sequence_id = Inl (ColumnNotFoundError c')"
    by (elim conjE)
  from s have s3: "\<exists>c'. c' \<notin> set (columns batch_without_sequence_id)
         \<and> merge_dedup_polars plain_externals stable_sort (\<lambda>xs. xs) batch_without_sequence_id
              = Inl (ColumnNotFoundError c')"
    by (elim conjE)
  from s have s5: "\<exists>c'. c' \<notin> set (columns batch_without_sequence_id)
         \<and> BronzeAppendStrategy_process plain_externals (Some two_record_batch)
              batch_without_sequence_id
              = (Some two_record_batch, Inl (ColumnNotFoundError c'))"
    by (elim conjE)
  from s have s6: "\<exists>c'. c' \<notin> set (columns batch_without_sequence_id)
         \<and> PolarsMergeStrategy_process plain_externals stable_sort (\<lambda>xs. xs)
              default_merge_config (Some two_record_batch) batch_without_sequence_id
              = (Some two_record_batch, Inl (ColumnNotFoundError c'))"
    by (elim conjE)
  from h1 h2 h3 e s2 s3 s5 s6 show ?thesis by (intro conjI)
qed

section \<open>The history the publisher returns\<close>



section \<open>A slow message after which the publisher stops\<close>

text \<open>
  Claim C1 says that no run loses a message. It fails whenever the last message takes
  the slow path: with one message asked for, \<^verbatim>\<open>slow_prob = 1.0\<close> and
  \<^verbatim>\<open>dup_prob = 0.0\<close>, the publisher creates the \<^verbatim>\<open>delayed_send\<close> task and
  puts the sentinel without suspending in between, the subscriber returns at the
  sentinel, and whatever the loop does next the message is never recorded: in every run
  the subscriber's list is empty and \<^verbatim>\<open>analyze\<close> finds sequence id 1 missing; and
  the run in which \<^verbatim>\<open>main\<close>, \<^verbatim>\<open>main\<close>, the subscriber and \<^verbatim>\<open>main\<close> are
  resumed in turn gets as far as \<^verbatim>\<open>analyze\<close>.
\<close>

theorem slow_last_message_lost:
  assumes "valid_source R" and "1 \<le> partitions cfg" and "total_messages cfg = 1"
    and "slow_prob cfg = 1" and "dup_prob cfg = 0"
  shows "(\<forall>schedule. \<exists>produced s.
            simulation cfg R clock aclock g schedule = Inr (produced, s)
            \<and> map sequence_id produced = [1]
            \<and> sub_records s = []
            \<and> missing produced (sub_records s) = [1])
       \<and> (\<exists>produced s.
            simulation cfg R clock aclock g [MainTask, MainTask, SubscriberTask, MainTask]
              = Inr (produced, s)
            \<and> main_at s = Analysed
            \<and> missing produced (sub_records s) = [1])"
proof -
  from publisher_lone_slow[OF assms, of clock g] obtain m d g' where
    p: "publisher cfg R clock g = Inr ([m], [Sleep d, SlowSend m, Complete], g')"
    and s: "sequence_id m = 1" by (elim exE conjE)
  have a: "\<exists>produced s.
            simulation cfg R clock aclock g schedule = Inr (produced, s)
            \<and> map sequence_id produced = [1]
            \<and> sub_records s = []
            \<and> missing produced (sub_records s) = [1]" for schedule
  proof -
    let ?s = "event_loop cfg aclock [Sleep d, SlowSend m, Complete] schedule"
    from p have 1: "simulation cfg R clock aclock g schedule = Inr ([m], ?s)"
      by (simp add: simulation_def)
    from s have 2: "map sequence_id [m] = [1]" by simp
    have 3: "sub_records ?s = []" by (rule lone_slow_message_never_received)
    from s 3 have 4: "missing [m] (sub_records ?s) = [1]" by (simp add: missing_lone)
    from 1 2 3 4 show ?thesis by (intro exI conjI)
  qed
  let ?f = "event_loop cfg aclock [Sleep d, SlowSend m, Complete]
      [MainTask, MainTask, SubscriberTask, MainTask]"
  from p have 1: "simulation cfg R clock aclock g [MainTask, MainTask, SubscriberTask, MainTask]
              = Inr ([m], ?f)"
    by (simp add: simulation_def)
  have 2: "main_at ?f = Analysed" by (simp add: lone_slow_loop_completes)
  from s have 3: "missing [m] (sub_records ?f) = [1]"
    by (simp add: lone_slow_loop_completes missing_lone)
  from 1 2 3 have b: "\<exists>produced s.
            simulation cfg R clock aclock g [MainTask, MainTask, SubscriberTask, MainTask]
              = Inr (produced, s)
            \<and> main_at s = Analysed
            \<and> missing produced (sub_records s) = [1]"
    by (intro exI conjI)
  from a b show ?thesis by blast
qed

theorem slow_last_message_lost_witness:
  "valid_source counter_source \<and> 1 \<le> partitions one_slow_message
   \<and> total_messages one_slow_message = 1
   \<and> slow_prob one_slow_message = 1 \<and> dup_prob one_slow_message = 0
   \<and> ((\<forall>schedule. \<exists>produced s.
            simulation one_slow_message counter_source (\<lambda>seq. 0) (\<lambda>k. 0) (0::nat) schedule
              = Inr (produced, s)
            \<and> map sequence_id produced = [1]
            \<and> sub_records s = []
            \<and> missing produced (sub_records s) = [1])
       \<and> (\<exists>produced s.
            simulation one_slow_message counter_source (\<lambda>seq. 0) (\<lambda>k. 0) (0::nat)
                [MainTask, MainTask, SubscriberTask, MainTask]
              = Inr (produced, s)
            \<and> main_at s = Analysed
            \<and> missing produced (sub_records s) = [1]))"
proof -
  note h = valid_counter_source one_slow_message_fields(1-4)
  note c = slow_last_message_lost[OF h, of "\<lambda>seq. 0" "\<lambda>k. 0" 0]
  show ?thesis
    by (rule conjI[OF h(1) conjI[OF h(2) conjI[OF h(3) conjI[OF h(4) conjI[OF h(5) c]]]]])
qed

section \<open>What the join barrier waits for\<close>

text \<open>
  Claim C2 says that the barrier holds \<^verbatim>\<open>main\<close> until every item, those of
  pending slow-path sends included, has been taken and acknowledged. The sentinel is
  indeed put once, as the publisher's last effect; but \<^verbatim>\<open>queue.join()\<close> counts the
  items that have been put, and a \<^verbatim>\<open>delayed_send\<close> task that has not put yet is
  none of them. On the input of C1 \<^verbatim>\<open>main\<close> gets past \<^verbatim>\<open>queue.join()\<close> and
  past the subscriber task with no unfinished task counted, while the task of the only
  message is still pending and the subscriber has recorded nothing.
\<close>

theorem join_returns_before_slow_send:
  assumes "valid_source R" and "1 \<le> partitions cfg" and "total_messages cfg = 1"
    and "slow_prob cfg = 1" and "dup_prob cfg = 0"
  shows "\<exists>produced effects g' s.
           publisher cfg R clock g = Inr (produced, effects, g')
           \<and> simulation cfg R clock aclock g [MainTask, MainTask, SubscriberTask, MainTask]
               = Inr (produced, s)
           \<and> length (filter (\<lambda>e. e = Complete) effects) = 1
           \<and> last effects = Complete
           \<and> main_at s = Analysed
           \<and> unfinished_tasks s = 0
           \<and> delayed s = produced
           \<and> produced \<noteq> []
           \<and> sub_records s = []"
proof -
  from publisher_lone_slow[OF assms, of clock g] obtain m d g' where
    p: "publisher cfg R clock g = Inr ([m], [Sleep d, SlowSend m, Complete], g')"
    by (elim exE conjE)
  let ?e = "[Sleep d, SlowSend m, Complete]"
  let ?s = "event_loop cfg aclock ?e [MainTask, MainTask, SubscriberTask, MainTask]"
  from p have 1: "simulation cfg R clock aclock g [MainTask, MainTask, SubscriberTask, MainTask]
              = Inr ([m], ?s)"
    by (simp add: simulation_def)
  have 2: "length (filter (\<lambda>e. e = Complete) ?e) = 1" by simp
  have 3: "last ?e = Complete" by simp
  have 4: "main_at ?s = Analysed" by (simp add: lone_slow_loop_completes)
  have 5: "unfinished_tasks ?s = 0" by (simp add: lone_slow_loop_completes)
  have 6: "delayed ?s = [m]" by (simp add: lone_slow_loop_completes)
  have 7: "[m] \<noteq> []" by simp
  have 8: "sub_records ?s = []" by (simp add: lone_slow_loop_completes)
  from p 1 2 3 4 5 6 7 8 show ?thesis by (intro exI conjI)
qed

theorem join_returns_before_slow_send_witness:
  "valid_source counter_source \<and> 1 \<le> partitions one_slow_message
   \<and> total_messages one_slow_message = 1
   \<and> slow_prob one_slow_message = 1 \<and> dup_prob one_slow_message = 0
   \<and> (\<exists>produced effects g' s.
           publisher one_slow_message counter_source (\<lambda>seq. 0) (0::nat)
             = Inr (produced, effects, g')
           \<and> simulation one_slow_message counter_source (\<lambda>seq. 0) (\<lambda>k. 0) 0
                [MainTask, MainTask, SubscriberTask, MainTask]
               = Inr (produced, s)
           \<and> length (filter (\<lambda>e. e = Complete) effects) = 1
           \<and> last effects = Complete
           \<and> main_at s = Analysed
           \<and> unfinished_tasks s = 0
           \<and> delayed s = produced
           \<and> produced \<noteq> []
           \<and> sub_records s = [])"
proof -
  note h = valid_counter_source one_slow_message_fields(1-4)
  note c = join_returns_before_slow_send[OF h, of "\<lambda>seq. 0" 0 "\<lambda>k. 0"]
  show ?thesis
    by (rule conjI[OF h(1) conjI[OF h(2) conjI[OF h(3) conjI[OF h(4) conjI[OF h(5) c]]]]])
qed

section \<open>Two runs from the same seed\<close>

text \<open>
  Claim C7, as amended. Two runs with the same configuration whose random generator starts in
  the same state (the same seed) make the same draws, whatever the clock reads: the two
  produced histories agree in every field but \<^verbatim>\<open>created_at\<close>, and, when the
  event loop resumes the tasks in the same order, the two lists of received records agree in
  every field but \<^verbatim>\<open>created_at\<close> and \<^verbatim>\<open>arrival_ts\<close> (so do
  the queue, the pending delayed sends and the counters of the final state). Both runs fail
  with the same error or both return. The two timestamp fields are readings of
  \<^verbatim>\<open>time.time()\<close>, which the seed does not fix.
\<close>

theorem same_seed_same_run_but_for_the_clock:
  "untimed_history (publisher cfg R clock1 g) = untimed_history (publisher cfg R clock2 g)
   \<and> untimed_run (simulation cfg R clock1 aclock1 g schedule)
       = untimed_run (simulation cfg R clock2 aclock2 g schedule)"
  by (simp add: publisher_untimed simulation_untimed)

text \<open>
  Claim C7 as the specification words it, with all fields included, fails: with one message
  asked for and the same generator state, a clock that reads 0 and a clock that reads 1 give
  two histories that differ in \<^verbatim>\<open>created_at\<close>.
\<close>

theorem same_seed_other_clock_counterexample:
  "publisher one_slow_message counter_source (\<lambda>seq. 0) (0::nat)
     = Inr ([first_message 0], [Sleep (1 / 100), SlowSend (first_message 0), Complete], 14)
   \<and> publisher one_slow_message counter_source (\<lambda>seq. 1) (0::nat)
     = Inr ([first_message 1], [Sleep (1 / 100), SlowSend (first_message 1), Complete], 14)
   \<and> created_at (first_message 0) \<noteq> created_at (first_message 1)
   \<and> publisher one_slow_message counter_source (\<lambda>seq. 0) (0::nat)
     \<noteq> publisher one_slow_message counter_source (\<lambda>seq. 1) (0::nat)"
  by (simp add: publisher_one_slow_message) (simp add: first_message_def)

end
